theory Spec2Isabelle
  imports Main
begin

section \<open>Numbers: \<open>Math.random()\<close>, the product with the length, \<open>Math.floor\<close>\<close>

text \<open>
  Both scripts compute \<^verbatim>\<open>Math.floor(Math.random() * CAGE_URLS.length)\<close> in IEEE
  double arithmetic. The only doubles that occur are non-negative and finite, so a
  double is written here as a dyadic rational \<open>numerator / 2 ^ places\<close>.

  A double \<open>d\<close> with \<open>0 \<le> d < 1\<close> (what \<open>Math.random()\<close> returns) is exactly a
  dyadic whose numerator is below \<open>2 ^ 53\<close> (53 significant bits) and below
  \<open>2 ^ places\<close> (the value is below 1), with at most 1074 binary places (the
  smallest subnormal is \<open>2 ^ -1074\<close>).
\<close>

record dyadic =
  numerator :: nat
  places :: nat

definition unit_interval_double :: "dyadic \<Rightarrow> bool" where
  "unit_interval_double r \<longleftrightarrow>
     numerator r < 2 ^ 53 \<and> numerator r < 2 ^ places r \<and> places r \<le> 1074"

text \<open>The number of binary digits of a natural number.\<close>

function bit_length :: "nat \<Rightarrow> nat" where
  "bit_length n = (if n = 0 then 0 else Suc (bit_length (n div 2)))"
  by pat_completeness auto
termination
  by (relation "measure id") auto

declare bit_length.simps [simp del]

text \<open>
  Rounding to nearest, ties to even, of a natural number to 53 significant bits:
  a number of \<open>b > 53\<close> bits loses its \<open>b - 53\<close> low bits.
\<close>

definition round_to_nearest :: "nat \<Rightarrow> nat" where
  "round_to_nearest p =
     (let b = bit_length p in
      if b \<le> 53 then p
      else
        let s = b - 53;
            q = p div 2 ^ s;
            low = p mod 2 ^ s;
            half = 2 ^ (s - 1)
        in (if half < low \<or> (low = half \<and> odd q) then q + 1 else q) * 2 ^ s)"

text \<open>
  \<^verbatim>\<open>Math.random() * CAGE_URLS.length\<close>: the exact product of a double of the unit
  interval and an array length (an integer below \<open>2 ^ 32\<close>, exact as a double) is
  a multiple of \<open>2 ^ -places\<close> with \<open>places \<le> 1074\<close>, so the only rounding is
  the one to 53 significant bits, and it never overflows.
\<close>

definition times_length :: "dyadic \<Rightarrow> nat \<Rightarrow> dyadic" where
  "times_length r len =
     \<lparr>numerator = round_to_nearest (numerator r * len), places = places r\<rparr>"

definition Math_floor :: "dyadic \<Rightarrow> nat" where
  "Math_floor d = numerator d div 2 ^ places d"

text \<open>
  Reading an array element: an index outside the array yields \<open>undefined\<close>
  (\<open>None\<close>), it does not throw.
\<close>

definition array_get :: "'a list \<Rightarrow> nat \<Rightarrow> 'a option" where
  "array_get xs i = (if i < length xs then Some (xs ! i) else None)"

section \<open>The document\<close>

text \<open>
  A DOM node, with what the platform derives \<open>nodeType\<close> and \<open>nodeName\<close> from. An
  element has a namespace prefix (or none) and a local name; \<open>html_element\<close> says
  that it is in the HTML namespace and belongs to an HTML document. Text nodes,
  comments and processing instructions have no children. The scripts never change
  the structure of the tree; they only assign to fields of node objects, which live
  in a heap indexed by the node's identity.
\<close>

datatype node =
    Element (ident: nat) (html_element: bool) (namespace_prefix: "string option")
      (localName: string) "node list"
  | Text (ident: nat)
  | Comment (ident: nat)
  | ProcessingInstruction (ident: nat) (target: string)
  | Document (ident: nat) "node list"

definition ELEMENT_NODE :: nat where
  "ELEMENT_NODE = 1"

definition TEXT_NODE :: nat where
  "TEXT_NODE = 3"

definition PROCESSING_INSTRUCTION_NODE :: nat where
  "PROCESSING_INSTRUCTION_NODE = 7"

definition COMMENT_NODE :: nat where
  "COMMENT_NODE = 8"

definition DOCUMENT_NODE :: nat where
  "DOCUMENT_NODE = 9"

fun nodeType :: "node \<Rightarrow> nat" where
  "nodeType (Element i h p l kids) = ELEMENT_NODE"
| "nodeType (Text i) = TEXT_NODE"
| "nodeType (Comment i) = COMMENT_NODE"
| "nodeType (ProcessingInstruction i t) = PROCESSING_INSTRUCTION_NODE"
| "nodeType (Document i kids) = DOCUMENT_NODE"

fun childNodes :: "node \<Rightarrow> node list" where
  "childNodes (Element i h p l kids) = kids"
| "childNodes (Document i kids) = kids"
| "childNodes n = []"

definition ascii_upper :: "char \<Rightarrow> char" where
  "ascii_upper c =
     (case map_of (zip ''abcdefghijklmnopqrstuvwxyz'' ''ABCDEFGHIJKLMNOPQRSTUVWXYZ'') c of
        Some u \<Rightarrow> u
      | None \<Rightarrow> c)"

definition qualified_name :: "string option \<Rightarrow> string \<Rightarrow> string" where
  "qualified_name p l = (case p of None \<Rightarrow> l | Some q \<Rightarrow> q @ '':'' @ l)"

text \<open>
  \<open>nodeName\<close>: for an element its qualified name, in ASCII upper case when it is an
  HTML element of an HTML document; for a processing instruction its target.
\<close>

fun nodeName :: "node \<Rightarrow> string" where
  "nodeName (Element i h p l kids) =
     (if h then map ascii_upper (qualified_name p l) else qualified_name p l)"
| "nodeName (Text i) = ''#text''"
| "nodeName (Comment i) = ''#comment''"
| "nodeName (ProcessingInstruction i t) = t"
| "nodeName (Document i kids) = ''#document''"

text \<open>The descendants of a node in tree order (pre-order), the node itself excluded.\<close>

fun descendants :: "node \<Rightarrow> node list" where
  "descendants (Element i h p l kids) = concat (map (\<lambda>k. k # descendants k) kids)"
| "descendants (Document i kids) = concat (map (\<lambda>k. k # descendants k) kids)"
| "descendants n = []"

text \<open>
  The type selector \<open>img\<close> of \<^verbatim>\<open>querySelectorAll("img")\<close> matches the elements whose
  local name is \<open>img\<close>, in any namespace (for an HTML element of an HTML document
  the selector is put in lower case first, which it already is).
  \<^verbatim>\<open>getElementsByTagName("img")\<close> selects the elements whose qualified name is
  \<open>img\<close>. Both return descendants of their receiver, in tree order.
\<close>

fun matches_img :: "node \<Rightarrow> bool" where
  "matches_img (Element i h p l kids) = (l = ''img'')"
| "matches_img n = False"

fun tagged_img :: "node \<Rightarrow> bool" where
  "tagged_img (Element i h p l kids) = (qualified_name p l = ''img'')"
| "tagged_img n = False"

definition querySelectorAll_img :: "node \<Rightarrow> node list" where
  "querySelectorAll_img element = filter matches_img (descendants element)"

definition getElementsByTagName_img :: "node \<Rightarrow> node list" where
  "getElementsByTagName_img document = filter tagged_img (descendants document)"

text \<open>
  A thrown value: an \<open>Error\<close> object with its message, or any other value.
\<close>

datatype thrown = Error string | NonError string

text \<open>
  The fields of an element object the scripts write. \<open>src\<close> holds the value
  assigned (\<open>None\<close> is \<open>undefined\<close>). A property assignment runs the property's
  setter, which may throw: \<open>setter_throws\<close> is the value it throws, if any.
\<close>

record element =
  src :: "string option"
  srcset :: string
  setter_throws :: "thrown option"

record MutationRecord =
  type :: string
  addedNodes :: "node list"
  removedNodes :: "node list"

text \<open>
  The options of \<open>MutationObserver.observe\<close>; a member the caller leaves out is
  false.
\<close>

record MutationObserverInit =
  childList :: bool
  attributes :: bool
  characterData :: bool
  subtree :: bool

text \<open>
  The state of the page as far as the scripts touch it: the heap of element
  objects, the number of calls of \<open>Math.random()\<close> so far, the console, the
  registered observer's options and the records queued for it.
\<close>

record page =
  elements :: "nat \<Rightarrow> element"
  random_calls :: nat
  console :: "string list"
  observer :: "MutationObserverInit option"
  queue :: "MutationRecord list"

text \<open>A statement completes normally or throws; either way the heap keeps its writes.\<close>

datatype outcome = Normal page | Throw thrown page

fun and_then :: "outcome \<Rightarrow> (page \<Rightarrow> outcome) \<Rightarrow> outcome" where
  "and_then (Normal st) f = f st"
| "and_then (Throw e st) f = Throw e st"

fun page_of :: "outcome \<Rightarrow> page" where
  "page_of (Normal st) = st"
| "page_of (Throw e st) = st"

fun for_each :: "('a \<Rightarrow> page \<Rightarrow> outcome) \<Rightarrow> 'a list \<Rightarrow> page \<Rightarrow> outcome" where
  "for_each f [] st = Normal st"
| "for_each f (x # xs) st = and_then (f x st) (for_each f xs)"

text \<open>
  The platform queues a mutation record for an observer only if the observer's
  options ask for records of that type.
\<close>

definition interested :: "MutationObserverInit \<Rightarrow> MutationRecord \<Rightarrow> bool" where
  "interested options r \<longleftrightarrow>
     (type r = ''childList'' \<and> childList options) \<or>
     (type r = ''attributes'' \<and> attributes options) \<or>
     (type r = ''characterData'' \<and> characterData options)"

definition notify :: "MutationRecord \<Rightarrow> page \<Rightarrow> page" where
  "notify r st =
     (case observer st of
        None \<Rightarrow> st
      | Some options \<Rightarrow> if interested options r then st\<lparr>queue := queue st @ [r]\<rparr> else st)"

definition attribute_record :: MutationRecord where
  "attribute_record = \<lparr>type = ''attributes'', addedNodes = [], removedNodes = []\<rparr>"

text \<open>\<^verbatim>\<open>element.src = v\<close> and \<^verbatim>\<open>element.srcset = v\<close>: attribute mutations.\<close>

definition assign_src :: "node \<Rightarrow> string option \<Rightarrow> page \<Rightarrow> outcome" where
  "assign_src n v st =
     (case setter_throws (elements st (ident n)) of
        Some e \<Rightarrow> Throw e st
      | None \<Rightarrow>
          Normal (notify attribute_record
            (st\<lparr>elements := (elements st)(ident n := (elements st (ident n))\<lparr>src := v\<rparr>)\<rparr>)))"

definition assign_srcset :: "node \<Rightarrow> string \<Rightarrow> page \<Rightarrow> outcome" where
  "assign_srcset n v st =
     (case setter_throws (elements st (ident n)) of
        Some e \<Rightarrow> Throw e st
      | None \<Rightarrow>
          Normal (notify attribute_record
            (st\<lparr>elements := (elements st)(ident n := (elements st (ident n))\<lparr>srcset := v\<rparr>)\<rparr>)))"

text \<open>
  \<open>observer.observe(document.body, options)\<close>. The scripts run when the document
  has been parsed (the manifest loads the content script at \<open>document_idle\<close>), so
  the body exists and the call registers the observer.
\<close>

definition observe :: "MutationObserverInit \<Rightarrow> page \<Rightarrow> page" where
  "observe options st = st\<lparr>observer := Some options\<rparr>"

definition console_log :: "string \<Rightarrow> page \<Rightarrow> page" where
  "console_log msg st = st\<lparr>console := console st @ [msg]\<rparr>"

definition console_error :: "string \<Rightarrow> page \<Rightarrow> page" where
  "console_error msg st = st\<lparr>console := console st @ [msg]\<rparr>"

text \<open>\<open>console.assert\<close> prints when the condition is false; it never throws.\<close>

definition console_assert :: "bool \<Rightarrow> string \<Rightarrow> page \<Rightarrow> page" where
  "console_assert condition msg st =
     (if condition then st else st\<lparr>console := console st @ [''Assertion failed: '' @ msg]\<rparr>)"

function show_nat :: "nat \<Rightarrow> string" where
  "show_nat n =
     (if n < 10 then [''0123456789'' ! n]
      else show_nat (n div 10) @ [''0123456789'' ! (n mod 10)])"
  by pat_completeness auto
termination
  by (relation "measure id") auto

declare show_nat.simps [simp del]

section \<open>The content script (\<open>content.ts\<close>)\<close>

definition CAGE_URLS :: "string list" where
  "CAGE_URLS =
     [''https://uproxx.com/wp-content/uploads/2022/04/con-air-nic-cage-feat.jpg?w=640'',
      ''https://phantom-marca.unidadeditorial.es/6b6aba2a4b0d54af863f41b668c4f8d3/resize/828/f/jpg/assets/multimedia/imagenes/2023/11/05/16991691937600.jpg'',
      ''https://images.fineartamerica.com/images/artworkimages/mediumlarge/3/nicolas-shrek-cage-nicholas-cage-funny-wall-art-print-nic-cage-funny-gift-fathers-day-ag-family.jpg'',
      ''https://static1.srcdn.com/wordpress/wp-content/uploads/2021/02/Nicolas-Cage-in-The-Family-Man.jpg'',
      ''https://u-mercari-images.mercdn.net/photos/m58440470289_1.jpg'']"

text \<open>
  The functions below take the array \<open>urls\<close> the script keeps in \<open>CAGE_URLS\<close>
  and the sequence \<open>rnd\<close> of the values \<open>Math.random()\<close> returns, call by call.
\<close>

fun checkRep_entries :: "string list \<Rightarrow> page \<Rightarrow> page" where
  "checkRep_entries [] st = st"
| "checkRep_entries (url # rest) st =
     checkRep_entries rest
       (console_assert (0 < length url) (''RI Fail: Invalid URL entry: '' @ url) st)"

definition checkRep :: "string list \<Rightarrow> page \<Rightarrow> page" where
  "checkRep urls st =
     checkRep_entries urls
       (console_assert (0 < length urls) ''RI Fail: CAGE_URLS is empty.''
         (console_assert True ''RI Fail: CAGE_URLS is not an array.'' st))"

definition getRandomCageUrl ::
  "string list \<Rightarrow> (nat \<Rightarrow> dyadic) \<Rightarrow> page \<Rightarrow> string option \<times> page" where
  "getRandomCageUrl urls rnd st =
     (let randomIndex = Math_floor (times_length (rnd (random_calls st)) (length urls))
      in (array_get urls randomIndex, st\<lparr>random_calls := Suc (random_calls st)\<rparr>))"

definition cageifyImage ::
  "string list \<Rightarrow> (nat \<Rightarrow> dyadic) \<Rightarrow> node \<Rightarrow> page \<Rightarrow> outcome" where
  "cageifyImage urls rnd imgElement st =
     (case getRandomCageUrl urls rnd st of
        (newSrc, st1) \<Rightarrow>
          and_then (assign_src imgElement newSrc st1) (assign_srcset imgElement ''''))"

definition processNode ::
  "string list \<Rightarrow> (nat \<Rightarrow> dyadic) \<Rightarrow> node \<Rightarrow> page \<Rightarrow> outcome" where
  "processNode urls rnd n st =
     (if nodeName n = ''IMG'' then cageifyImage urls rnd n st
      else if nodeType n = ELEMENT_NODE then
        for_each (cageifyImage urls rnd) (querySelectorAll_img n) st
      else Normal st)"

text \<open>The body of the initial loop over \<open>images\<close>: it assigns \<open>src\<close> only.\<close>

definition replace_src ::
  "string list \<Rightarrow> (nat \<Rightarrow> dyadic) \<Rightarrow> node \<Rightarrow> page \<Rightarrow> outcome" where
  "replace_src urls rnd img st =
     (case getRandomCageUrl urls rnd st of
        (newSrc, st1) \<Rightarrow> assign_src img newSrc st1)"

definition observerCallback ::
  "string list \<Rightarrow> (nat \<Rightarrow> dyadic) \<Rightarrow> MutationRecord list \<Rightarrow> page \<Rightarrow> outcome" where
  "observerCallback urls rnd mutationsList st =
     for_each
       (\<lambda>mutation st'.
          if type mutation = ''childList'' then
            for_each (processNode urls rnd) (addedNodes mutation) st'
          else Normal st')
       mutationsList st"

definition config :: MutationObserverInit where
  "config = \<lparr>childList = True, attributes = False, characterData = False, subtree = True\<rparr>"

text \<open>The statements of the \<open>try\<close> block.\<close>

definition main_try ::
  "string list \<Rightarrow> (nat \<Rightarrow> dyadic) \<Rightarrow> node \<Rightarrow> page \<Rightarrow> outcome" where
  "main_try urls rnd document st =
     (let st1 = checkRep urls st;
          images = getElementsByTagName_img document;
          st2 = console_log
                  (''Cageify TS found '' @ show_nat (length images) @ '' images. Replacing...'')
                  st1
      in and_then (for_each (replace_src urls rnd) images st2)
           (\<lambda>st3. Normal (observe config (console_log ''Cageify TS replacement complete!'' st3))))"

text \<open>
  The whole script: the \<open>try\<close> block and its \<open>catch\<close> clause. The observer's
  callback is not run here; the platform calls it later, once for each batch of
  records it delivers, when the \<open>try\<close> block has long been left.
\<close>

definition main ::
  "string list \<Rightarrow> (nat \<Rightarrow> dyadic) \<Rightarrow> node \<Rightarrow> page \<Rightarrow> outcome" where
  "main urls rnd document st =
     (case main_try urls rnd document (console_log ''Cageify TS Content Script Loaded!'' st) of
        Normal st' \<Rightarrow> Normal st'
      | Throw (Error message) st' \<Rightarrow>
          Normal (console_error (''Cageify TS Error: '' @ message) st')
      | Throw (NonError v) st' \<Rightarrow>
          Normal (console_error (''Cageify TS encountered an unknown error: '' @ v) st'))"

text \<open>What the \<open>catch\<close> clause prints for a thrown value.\<close>

definition report :: "thrown \<Rightarrow> string" where
  "report e =
     (case e of
        Error message \<Rightarrow> ''Cageify TS Error: '' @ message
      | NonError v \<Rightarrow> ''Cageify TS encountered an unknown error: '' @ v)"

section \<open>The class-based script\<close>

fun Cageify_checkRep_entries :: "string list \<Rightarrow> page \<Rightarrow> page" where
  "Cageify_checkRep_entries [] st = st"
| "Cageify_checkRep_entries (url # rest) st =
     Cageify_checkRep_entries rest
       (console_assert (take 8 url = ''https://'') ''CAGE_URLS must contain valid urls''
         (console_assert (length url \<noteq> 0) ''CAGE_URLS must not contain empty strings'' st))"

definition Cageify_checkRep :: "string list \<Rightarrow> page \<Rightarrow> page" where
  "Cageify_checkRep urls st =
     Cageify_checkRep_entries urls
       (console_assert (length urls \<noteq> 0) ''CAGE_URLS must not be empty'' st)"

text \<open>The constructor stores the array it is given and checks it.\<close>

definition Cageify_constructor :: "string list \<Rightarrow> page \<Rightarrow> string list \<times> page" where
  "Cageify_constructor urls st = (urls, Cageify_checkRep urls st)"

definition Cageify_getRandomCageUrl ::
  "string list \<Rightarrow> (nat \<Rightarrow> dyadic) \<Rightarrow> page \<Rightarrow> string option \<times> page" where
  "Cageify_getRandomCageUrl urls rnd st =
     (array_get urls (Math_floor (times_length (rnd (random_calls st)) (length urls))),
      st\<lparr>random_calls := Suc (random_calls st)\<rparr>)"

definition Cageify_replaceImage ::
  "string list \<Rightarrow> (nat \<Rightarrow> dyadic) \<Rightarrow> node \<Rightarrow> page \<Rightarrow> outcome" where
  "Cageify_replaceImage urls rnd img st =
     (case Cageify_getRandomCageUrl urls rnd st of
        (randomImage, st1) \<Rightarrow> assign_src img randomImage st1)"

text \<open>What the callback does with one added node: two \<open>if\<close> statements in a row.\<close>

definition callback_node ::
  "string list \<Rightarrow> (nat \<Rightarrow> dyadic) \<Rightarrow> node \<Rightarrow> page \<Rightarrow> outcome" where
  "callback_node urls rnd n st =
     and_then
       (if nodeName n = ''IMG'' then Cageify_replaceImage urls rnd n st else Normal st)
       (\<lambda>st'.
          if nodeType n = ELEMENT_NODE then
            for_each (Cageify_replaceImage urls rnd) (querySelectorAll_img n) st'
          else Normal st')"

definition callback ::
  "string list \<Rightarrow> (nat \<Rightarrow> dyadic) \<Rightarrow> MutationRecord list \<Rightarrow> page \<Rightarrow> outcome" where
  "callback urls rnd records st =
     for_each (\<lambda>record. for_each (callback_node urls rnd) (addedNodes record)) records st"

text \<open>
  The class-based script from top to bottom; it has no \<open>try\<close>. The options it
  passes to \<open>observe\<close> are those of \<open>config\<close>.
\<close>

definition Cageify_script ::
  "string list \<Rightarrow> (nat \<Rightarrow> dyadic) \<Rightarrow> node \<Rightarrow> page \<Rightarrow> outcome" where
  "Cageify_script urls rnd document st =
     (case Cageify_constructor urls (console_log ''already using typescript'' st) of
        (cageify, st1) \<Rightarrow>
          and_then
            (for_each (Cageify_replaceImage cageify rnd) (getElementsByTagName_img document) st1)
            (\<lambda>st2. Normal (observe config st2)))"

section \<open>Notions used in the statements\<close>

text \<open>
  The observer is the one the scripts register, and the records queued for it are
  \<open>q\<close>.
\<close>

definition quiet :: "MutationRecord list \<Rightarrow> page \<Rightarrow> bool" where
  "quiet q st \<longleftrightarrow> observer st = Some config \<and> queue st = q"

text \<open>
  The elements the class-based callback hands to \<open>replaceImage\<close> for one added
  node, and for a whole batch of records, in the order of the calls.
\<close>

definition callback_node_targets :: "node \<Rightarrow> node list" where
  "callback_node_targets n =
     (if nodeName n = ''IMG'' then [n] else []) @
     (if nodeType n = ELEMENT_NODE then querySelectorAll_img n else [])"

definition callback_targets :: "MutationRecord list \<Rightarrow> node list" where
  "callback_targets records =
     concat (map (\<lambda>record. concat (map callback_node_targets (addedNodes record))) records)"

text \<open>All nodes of the subtrees a batch reports as added.\<close>

definition delivered_nodes :: "MutationRecord list \<Rightarrow> node list" where
  "delivered_nodes records =
     concat (map (\<lambda>record. concat (map (\<lambda>n. n # descendants n) (addedNodes record))) records)"

section \<open>Example inputs\<close>

text \<open>\<open>Math.random()\<close> returning 0, 0.25, 0.5, 0.75, 0, ...\<close>

definition quarters :: "nat \<Rightarrow> dyadic" where
  "quarters k = \<lparr>numerator = k mod 4, places = 2\<rparr>"

definition sample_img :: node where
  "sample_img = Element 3 True None ''img'' []"

definition sample_document :: node where
  "sample_document =
     Document 0
       [Element 1 True None ''html'' [Element 2 True None ''body'' [sample_img]]]"

definition sample_div :: node where
  "sample_div =
     Element 4 True None ''div''
       [Element 5 True None ''img'' [],
        Text 6,
        Element 7 True None ''p'' [Element 8 True None ''img'' []]]"

text \<open>An image element that was given an image element as a child.\<close>

definition nested_img :: node where
  "nested_img = Element 10 True None ''img'' [Element 11 True None ''img'' []]"

definition sample_page :: page where
  "sample_page =
     \<lparr>elements =
        (\<lambda>_. \<lparr>src = Some ''photo.png'', srcset = ''photo-2x.png 2x'', setter_throws = None\<rparr>),
      random_calls = 0, console = [], observer = None, queue = []\<rparr>"

text \<open>The same page, where assigning to a field of element 3 throws.\<close>

definition read_only_page :: page where
  "read_only_page =
     sample_page\<lparr>elements := (elements sample_page)
       (3 := \<lparr>src = Some ''photo.png'', srcset = [],
              setter_throws = Some (Error ''src is read-only'')\<rparr>)\<rparr>"

definition sample_batch :: "MutationRecord list" where
  "sample_batch =
     [\<lparr>type = ''childList'', addedNodes = [sample_div], removedNodes = []\<rparr>,
      \<lparr>type = ''childList'', addedNodes = [sample_img], removedNodes = []\<rparr>]"

text \<open>
  A delivery that reports the \<open>DIV\<close> and, in a record of its own, the first image
  inside it (the page inserted the \<open>DIV\<close> and then the image into it).
\<close>

definition nested_batch :: "MutationRecord list" where
  "nested_batch =
     [\<lparr>type = ''childList'', addedNodes = [sample_div], removedNodes = []\<rparr>,
      \<lparr>type = ''childList'', addedNodes = [Element 5 True None ''img'' []], removedNodes = []\<rparr>]"

section \<open>The random index\<close>

lemma bit_length_Suc: "0 < n \<Longrightarrow> bit_length n = Suc (bit_length (n div 2))"
  by (simp add: bit_length.simps [of n])

lemma bit_length_0: "bit_length 0 = 0"
  by (simp add: bit_length.simps [of 0])

lemma bit_length_lower: "0 < n \<Longrightarrow> 2 ^ (bit_length n - 1) \<le> n"
proof (induction n rule: bit_length.induct)
  case (1 n)
  show ?case
  proof (cases "n div 2 = 0")
    case True
    then have "bit_length n = 1" using 1(2) by (simp add: bit_length_Suc bit_length_0)
    then show ?thesis using 1(2) by simp
  next
    case False
    then have ih: "2 ^ (bit_length (n div 2) - 1) \<le> n div 2" using 1 by simp
    have pos: "0 < bit_length (n div 2)" using False by (simp add: bit_length_Suc)
    have "2 ^ (bit_length n - 1) = (2::nat) ^ bit_length (n div 2)"
      using 1(2) by (simp add: bit_length_Suc)
    also have "\<dots> = 2 * 2 ^ (bit_length (n div 2) - 1)"
      using pos by (cases "bit_length (n div 2)") simp_all
    also have "\<dots> \<le> 2 * (n div 2)" using ih by simp
    also have "\<dots> \<le> n" by simp
    finally show ?thesis .
  qed
qed

lemma bit_length_le:
  assumes "p < 2 ^ k"
  shows "bit_length p \<le> k"
proof (cases "p = 0")
  case True
  then show ?thesis by (simp add: bit_length_0)
next
  case False
  then have "2 ^ (bit_length p - 1) \<le> p" using bit_length_lower [of p] by simp
  then have "(2::nat) ^ (bit_length p - 1) < 2 ^ k" using assms by (rule le_less_trans)
  then have "bit_length p - 1 < k" by simp
  then show ?thesis by simp
qed

lemma bit_length_upper: "n < 2 ^ bit_length n"
proof (induction n rule: bit_length.induct)
  case (1 n)
  show ?case
  proof (cases "n = 0")
    case True
    then show ?thesis by simp
  next
    case False
    then have "n div 2 < 2 ^ bit_length (n div 2)" using 1 by simp
    then have "n < 2 * 2 ^ bit_length (n div 2)" by linarith
    then show ?thesis using False by (simp add: bit_length_Suc)
  qed
qed

lemma bit_length_eq:
  assumes "2 ^ k \<le> p" and "p < 2 ^ Suc k"
  shows "bit_length p = Suc k"
proof -
  have "bit_length p \<le> Suc k" using assms(2) by (rule bit_length_le)
  moreover have "(2::nat) ^ k < 2 ^ bit_length p"
    using assms(1) bit_length_upper [of p] by (rule le_less_trans)
  then have "k < bit_length p" by simp
  ultimately show ?thesis by simp
qed

lemma round_to_nearest_small: "p < 2 ^ 53 \<Longrightarrow> round_to_nearest p = p"
  using bit_length_le [of p 53] by (simp add: round_to_nearest_def)

text \<open>Rounding moves a number up by at most half a unit of its last kept bit.\<close>

lemma round_to_nearest_upper:
  assumes "53 < bit_length p"
  shows "round_to_nearest p \<le> p + 2 ^ (bit_length p - 54)"
proof -
  define s where "s = bit_length p - 53"
  have s: "0 < s" "s - 1 = bit_length p - 54" using assms by (simp_all add: s_def)
  have half: "(2::nat) ^ s = 2 * 2 ^ (s - 1)" using s(1) by (cases s) simp_all
  have decomp: "p div 2 ^ s * 2 ^ s + p mod 2 ^ s = p" by (rule div_mult_mod_eq)
  show ?thesis
  proof (cases "2 ^ (s - 1) < p mod 2 ^ s \<or> (p mod 2 ^ s = 2 ^ (s - 1) \<and> odd (p div 2 ^ s))")
    case True
    then have up: "2 ^ (s - 1) \<le> p mod 2 ^ s" by auto
    have "round_to_nearest p = (p div 2 ^ s + 1) * 2 ^ s"
      using True assms by (simp add: round_to_nearest_def Let_def s_def)
    also have "\<dots> = p div 2 ^ s * 2 ^ s + 2 * 2 ^ (s - 1)" using half by (simp add: algebra_simps)
    also have "\<dots> \<le> p div 2 ^ s * 2 ^ s + p mod 2 ^ s + 2 ^ (s - 1)" using up by simp
    also have "\<dots> = p + 2 ^ (s - 1)" using decomp by simp
    finally show ?thesis using s(2) by simp
  next
    case False
    then have "round_to_nearest p = p div 2 ^ s * 2 ^ s"
      using assms by (auto simp add: round_to_nearest_def Let_def s_def)
    also have "\<dots> \<le> p" using decomp by linarith
    finally show ?thesis by simp
  qed
qed

text \<open>
  A double below 1 is below 1 by at least \<open>2 ^ -53\<close> of 1: the largest one is
  \<open>1 - 2 ^ -53\<close>.
\<close>

lemma unit_interval_gap:
  assumes "unit_interval_double r"
  shows "2 ^ places r \<le> 2 ^ 53 * (2 ^ places r - numerator r)"
proof -
  define B :: nat where "B = 2 ^ 53"
  define N :: nat where "N = 2 ^ places r"
  define a where "a = numerator r"
  have a: "a < B" "a < N"
    using assms by (simp_all add: unit_interval_double_def B_def N_def a_def)
  have B2: "2 \<le> B" by (simp add: B_def)
  have "N \<le> B * (N - a)"
  proof (cases "places r \<le> 53")
    case True
    have "N \<le> B" unfolding N_def B_def using True by (rule power_increasing) simp
    moreover have "B * 1 \<le> B * (N - a)" using a(2) by (intro mult_le_mono2) simp
    then have "B \<le> B * (N - a)" by (simp only: mult_1_right)
    ultimately show ?thesis by (rule order_trans)
  next
    case False
    define M :: nat where "M = 2 ^ (places r - 53)"
    have "N = 2 ^ (53 + (places r - 53))" using False by (simp add: N_def)
    then have N: "N = B * M" by (simp only: power_add B_def M_def)
    have "(2::nat) ^ 1 \<le> 2 ^ (places r - 53)" using False by (intro power_increasing) simp_all
    then have M2: "2 \<le> M" by (simp add: M_def)
    have "B + M \<le> B * M"
    proof -
      have "B + M \<le> 2 * B + (M - 2) * 2" using M2 B2 by simp
      also have "\<dots> \<le> 2 * B + (M - 2) * B" using B2 by simp
      also have "\<dots> = B * M" using M2 by (simp add: algebra_simps)
      finally show ?thesis .
    qed
    then have "a + M \<le> B * M" using a(1) by simp
    then have "M \<le> N - a" using N by simp
    then have "B * M \<le> B * (N - a)" by (rule mult_le_mono2)
    then show ?thesis using N by simp
  qed
  then show ?thesis by (simp only: B_def N_def a_def)
qed

text \<open>The rounded product stays below the length.\<close>

lemma round_to_nearest_below:
  assumes r: "unit_interval_double r" and len: "0 < len"
  shows "round_to_nearest (numerator r * len) < len * 2 ^ places r"
proof -
  define B :: nat where "B = 2 ^ 53"
  define N :: nat where "N = 2 ^ places r"
  define a where "a = numerator r"
  define p where "p = a * len"
  have a: "a < N" using r by (simp add: unit_interval_double_def N_def a_def)
  have gap: "N \<le> B * (N - a)" using unit_interval_gap [OF r] by (simp only: B_def N_def a_def)
  have p_less: "p < len * N" using a len by (simp add: p_def mult.commute)
  show ?thesis
  proof (cases "bit_length p \<le> 53")
    case True
    then have "round_to_nearest p = p" by (simp add: round_to_nearest_def)
    then show ?thesis using p_less by (simp add: p_def a_def N_def)
  next
    case False
    then have big: "53 < bit_length p" by simp
    then have ppos: "0 < p" by (cases "p = 0") (simp_all add: bit_length_0)
    define h :: nat where "h = 2 ^ (bit_length p - 54)"
    have "B * h = 2 ^ (53 + (bit_length p - 54))" by (simp only: B_def h_def power_add)
    also have "\<dots> = 2 ^ (bit_length p - 1)" using big by simp
    also have "\<dots> \<le> p" using bit_length_lower [OF ppos] .
    finally have Bh: "B * h \<le> p" .
    have "len * N \<le> len * (B * (N - a))" using gap by (rule mult_le_mono2)
    then have "len * N \<le> B * (len * N - p)"
      by (simp add: p_def diff_mult_distrib2 mult.commute mult.left_commute)
    with Bh p_less have "B * h < B * (len * N - p)" by linarith
    then have "h < len * N - p" by simp
    then have "p + h < len * N" by simp
    moreover have "round_to_nearest p \<le> p + h"
      using round_to_nearest_upper [OF big] by (simp only: h_def)
    ultimately show ?thesis by (simp add: p_def a_def N_def)
  qed
qed

lemma random_index_in_bounds:
  assumes "unit_interval_double r" and "0 < len"
  shows "Math_floor (times_length r len) < len"
proof -
  have "round_to_nearest (numerator r * len) < len * 2 ^ places r"
    using assms by (rule round_to_nearest_below)
  then show ?thesis
    by (simp add: Math_floor_def times_length_def less_mult_imp_div_less)
qed

lemma random_index_empty: "Math_floor (times_length r 0) = 0"
  by (simp add: Math_floor_def times_length_def round_to_nearest_def bit_length_0)

text \<open>
  The rounding at work: the largest double below 1 is \<open>(2 ^ 53 - 1) / 2 ^ 53\<close>; its
  product with 3 has 55 bits and is rounded down to a multiple of 4, and the index is 2.
\<close>

lemma largest_double_times_3:
  "Math_floor (times_length \<lparr>numerator = 2 ^ 53 - 1, places = 53\<rparr> 3) = 2"
proof -
  have "bit_length ((2 ^ 53 - 1) * 3) = Suc 54"
    by (rule bit_length_eq) simp_all
  then show ?thesis
    by (simp add: Math_floor_def times_length_def round_to_nearest_def Let_def)
qed

section \<open>Fields the operations leave alone\<close>

lemma notify_fields [simp]:
  "elements (notify r st) = elements st"
  "random_calls (notify r st) = random_calls st"
  "console (notify r st) = console st"
  "observer (notify r st) = observer st"
  by (simp_all add: notify_def split: option.splits)

lemma console_fields [simp]:
  "elements (console_log m st) = elements st"
  "observer (console_log m st) = observer st"
  "random_calls (console_log m st) = random_calls st"
  "queue (console_log m st) = queue st"
  "elements (console_error m st) = elements st"
  "observer (console_error m st) = observer st"
  "random_calls (console_error m st) = random_calls st"
  "queue (console_error m st) = queue st"
  "elements (console_assert c m st) = elements st"
  "observer (console_assert c m st) = observer st"
  "random_calls (console_assert c m st) = random_calls st"
  "queue (console_assert c m st) = queue st"
  by (simp_all add: console_log_def console_error_def console_assert_def)

lemma checkRep_entries_fields [simp]:
  "elements (checkRep_entries urls st) = elements st"
  "observer (checkRep_entries urls st) = observer st"
  "random_calls (checkRep_entries urls st) = random_calls st"
  "queue (checkRep_entries urls st) = queue st"
  by (induction urls arbitrary: st) simp_all

lemma checkRep_fields [simp]:
  "elements (checkRep urls st) = elements st"
  "observer (checkRep urls st) = observer st"
  "random_calls (checkRep urls st) = random_calls st"
  "queue (checkRep urls st) = queue st"
  by (simp_all add: checkRep_def)

lemma Cageify_checkRep_entries_fields [simp]:
  "elements (Cageify_checkRep_entries urls st) = elements st"
  "observer (Cageify_checkRep_entries urls st) = observer st"
  "random_calls (Cageify_checkRep_entries urls st) = random_calls st"
  "queue (Cageify_checkRep_entries urls st) = queue st"
  by (induction urls arbitrary: st) simp_all

lemma Cageify_checkRep_fields [simp]:
  "elements (Cageify_checkRep urls st) = elements st"
  "observer (Cageify_checkRep urls st) = observer st"
  "random_calls (Cageify_checkRep urls st) = random_calls st"
  "queue (Cageify_checkRep urls st) = queue st"
  by (simp_all add: Cageify_checkRep_def)

section \<open>When the invariant checks print nothing\<close>

lemma console_assert_console:
  "console (console_assert c m st) =
   console st @ (if c then [] else [''Assertion failed: '' @ m])"
  by (simp add: console_assert_def)

lemma checkRep_entries_console:
  "\<exists>out. console (checkRep_entries urls st) = console st @ out \<and>
     (out = [] \<longleftrightarrow> (\<forall>u\<in>set urls. u \<noteq> []))"
proof (induction urls arbitrary: st)
  case Nil
  then show ?case by simp
next
  case (Cons url rest)
  from Cons.IH [of "console_assert (0 < length url) (''RI Fail: Invalid URL entry: '' @ url) st"]
  show ?case by (auto simp add: console_assert_console)
qed

lemma checkRep_silent:
  "console (checkRep urls st) = console st \<longleftrightarrow> urls \<noteq> [] \<and> (\<forall>u\<in>set urls. u \<noteq> [])"
proof -
  let ?st1 = "console_assert (0 < length urls) ''RI Fail: CAGE_URLS is empty.''
         (console_assert True ''RI Fail: CAGE_URLS is not an array.'' st)"
  obtain out where out: "console (checkRep_entries urls ?st1) = console ?st1 @ out"
    "out = [] \<longleftrightarrow> (\<forall>u\<in>set urls. u \<noteq> [])"
    using checkRep_entries_console by blast
  show ?thesis
    using out by (cases "urls = []") (auto simp add: checkRep_def console_assert_console)
qed

lemma Cageify_checkRep_entries_console:
  "\<exists>out. console (Cageify_checkRep_entries urls st) = console st @ out \<and>
     (out = [] \<longleftrightarrow> (\<forall>u\<in>set urls. u \<noteq> [] \<and> take 8 u = ''https://''))"
proof (induction urls arbitrary: st)
  case Nil
  then show ?case by simp
next
  case (Cons url rest)
  let ?st1 = "console_assert (take 8 url = ''https://'') ''CAGE_URLS must contain valid urls''
         (console_assert (length url \<noteq> 0) ''CAGE_URLS must not contain empty strings'' st)"
  from Cons.IH [of ?st1] obtain out where
    "console (Cageify_checkRep_entries rest ?st1) = console ?st1 @ out"
    "out = [] \<longleftrightarrow> (\<forall>u\<in>set rest. u \<noteq> [] \<and> take 8 u = ''https://'')"
    by blast
  then show ?case by (auto simp add: console_assert_console)
qed

lemma Cageify_checkRep_silent:
  "console (Cageify_checkRep urls st) = console st \<longleftrightarrow>
     urls \<noteq> [] \<and> (\<forall>u\<in>set urls. u \<noteq> [] \<and> take 8 u = ''https://'')"
proof -
  let ?st1 = "console_assert (length urls \<noteq> 0) ''CAGE_URLS must not be empty'' st"
  obtain out where out: "console (Cageify_checkRep_entries urls ?st1) = console ?st1 @ out"
    "out = [] \<longleftrightarrow> (\<forall>u\<in>set urls. u \<noteq> [] \<and> take 8 u = ''https://'')"
    using Cageify_checkRep_entries_console by blast
  show ?thesis
    using out by (cases "urls = []") (auto simp add: Cageify_checkRep_def console_assert_console)
qed

section \<open>Replacing one image, and a list of images\<close>

lemma getRandomCageUrl_fst_cong:
  "random_calls st = random_calls st' \<Longrightarrow>
   fst (getRandomCageUrl urls rnd st) = fst (getRandomCageUrl urls rnd st')"
  by (simp add: getRandomCageUrl_def Let_def)

lemma Cageify_getRandomCageUrl_eq:
  "Cageify_getRandomCageUrl urls rnd st = getRandomCageUrl urls rnd st"
  by (simp add: getRandomCageUrl_def Cageify_getRandomCageUrl_def Let_def)

lemma cageifyImage_normal:
  assumes "setter_throws (elements st (ident n)) = None"
  shows "\<exists>st'. cageifyImage urls rnd n st = Normal st' \<and>
           elements st' = (elements st)(ident n := (elements st (ident n))
             \<lparr>src := fst (getRandomCageUrl urls rnd st), srcset := []\<rparr>) \<and>
           random_calls st' = Suc (random_calls st)"
  using assms
  by (simp add: cageifyImage_def assign_src_def assign_srcset_def getRandomCageUrl_def Let_def)

text \<open>
  A loop of \<open>cageifyImage\<close> over elements of distinct identity whose setters do not
  throw: the \<open>j\<close>-th element receives what the \<open>j\<close>-th call of \<open>Math.random()\<close> from
  now selects, and no other element changes.
\<close>

lemma for_each_cageifyImage:
  assumes "\<forall>x\<in>set imgs. setter_throws (elements st (ident x)) = None"
    and "distinct (map ident imgs)"
  shows "\<exists>st'. for_each (cageifyImage urls rnd) imgs st = Normal st' \<and>
           random_calls st' = random_calls st + length imgs \<and>
           (\<forall>j<length imgs. elements st' (ident (imgs ! j)) =
              (elements st (ident (imgs ! j)))
                \<lparr>src := fst (getRandomCageUrl urls rnd
                               (st\<lparr>random_calls := random_calls st + j\<rparr>)),
                 srcset := []\<rparr>) \<and>
           (\<forall>i. i \<notin> ident ` set imgs \<longrightarrow> elements st' i = elements st i)"
  using assms
proof (induction imgs arbitrary: st)
  case Nil
  then show ?case by simp
next
  case (Cons x xs)
  from Cons.prems(1) have "setter_throws (elements st (ident x)) = None" by simp
  from cageifyImage_normal [OF this, of urls rnd]
  obtain st1 where st1: "cageifyImage urls rnd x st = Normal st1"
    and el1: "elements st1 = (elements st)(ident x := (elements st (ident x))
             \<lparr>src := fst (getRandomCageUrl urls rnd st), srcset := []\<rparr>)"
    and rc1: "random_calls st1 = Suc (random_calls st)"
    by blast
  have nf1: "\<forall>y\<in>set xs. setter_throws (elements st1 (ident y)) = None"
    using Cons.prems(1) by (simp add: el1)
  have d: "distinct (map ident xs)" and notin: "ident x \<notin> ident ` set xs"
    using Cons.prems(2) by simp_all
  from Cons.IH [OF nf1 d]
  obtain st' where st': "for_each (cageifyImage urls rnd) xs st1 = Normal st'"
    and rc': "random_calls st' = random_calls st1 + length xs"
    and hit: "\<forall>j<length xs. elements st' (ident (xs ! j)) =
              (elements st1 (ident (xs ! j)))
                \<lparr>src := fst (getRandomCageUrl urls rnd
                               (st1\<lparr>random_calls := random_calls st1 + j\<rparr>)),
                 srcset := []\<rparr>"
    and miss: "\<forall>i. i \<notin> ident ` set xs \<longrightarrow> elements st' i = elements st1 i"
    by blast
  have run: "for_each (cageifyImage urls rnd) (x # xs) st = Normal st'"
    by (simp add: st1 st')
  have cnt: "random_calls st' = random_calls st + length (x # xs)"
    by (simp add: rc' rc1)
  have hits: "elements st' (ident ((x # xs) ! j)) =
              (elements st (ident ((x # xs) ! j)))
                \<lparr>src := fst (getRandomCageUrl urls rnd
                               (st\<lparr>random_calls := random_calls st + j\<rparr>)),
                 srcset := []\<rparr>" if j: "j < length (x # xs)" for j
  proof (cases j)
    case 0
    have "fst (getRandomCageUrl urls rnd (st\<lparr>random_calls := random_calls st\<rparr>)) =
          fst (getRandomCageUrl urls rnd st)"
      by (rule getRandomCageUrl_fst_cong) simp
    then show ?thesis using 0 miss notin by (simp add: el1)
  next
    case (Suc k)
    then have k: "k < length xs" using j by simp
    then have ne: "ident (xs ! k) \<noteq> ident x" using notin by (metis image_eqI nth_mem)
    have "fst (getRandomCageUrl urls rnd (st1\<lparr>random_calls := random_calls st1 + k\<rparr>)) =
          fst (getRandomCageUrl urls rnd (st\<lparr>random_calls := random_calls st + Suc k\<rparr>))"
      by (rule getRandomCageUrl_fst_cong) (simp add: rc1)
    then show ?thesis using Suc hit k ne by (simp add: el1)
  qed
  have misses: "elements st' i = elements st i" if "i \<notin> ident ` set (x # xs)" for i
    using that miss by (simp add: el1)
  show ?case
    using run cnt hits misses by auto
qed

section \<open>Loops and what they preserve\<close>

lemma for_each_page_of:
  assumes step: "\<And>x st. P st \<Longrightarrow> P (page_of (f x st))" and "P st"
  shows "P (page_of (for_each f xs st))"
  using \<open>P st\<close>
proof (induction xs arbitrary: st)
  case Nil
  then show ?case by simp
next
  case (Cons x xs)
  show ?case
  proof (cases "f x st")
    case (Normal st1)
    then have "P st1" using step [OF Cons.prems, of x] by simp
    then show ?thesis using Cons.IH Normal by simp
  next
    case (Throw e st1)
    then have "P st1" using step [OF Cons.prems, of x] by simp
    then show ?thesis using Throw by simp
  qed
qed

lemma and_then_cong_fun: "(\<And>s. f s = g s) \<Longrightarrow> and_then a f = and_then a g"
  by (cases a) simp_all

lemma for_each_append:
  "for_each f (xs @ ys) st = and_then (for_each f xs st) (for_each f ys)"
proof (induction xs arbitrary: st)
  case Nil
  show ?case by simp
next
  case (Cons x xs)
  show ?case by (cases "f x st") (simp_all add: Cons.IH)
qed

lemma for_each_concat:
  "for_each (\<lambda>x. for_each f (g x)) xs st = for_each f (concat (map g xs)) st"
proof (induction xs arbitrary: st)
  case Nil
  show ?case by simp
next
  case (Cons x xs)
  have "and_then a (for_each (\<lambda>x. for_each f (g x)) xs) =
        and_then a (for_each f (concat (map g xs)))" for a
    using Cons.IH by (rule and_then_cong_fun)
  then show ?case by (simp add: for_each_append)
qed

lemma observerCallback_Cons:
  "observerCallback urls rnd (m # batch) st =
     and_then (if type m = ''childList'' then for_each (processNode urls rnd) (addedNodes m) st
               else Normal st)
       (observerCallback urls rnd batch)"
proof -
  have "observerCallback urls rnd batch =
        for_each (\<lambda>mutation st'. if type mutation = ''childList''
            then for_each (processNode urls rnd) (addedNodes mutation) st' else Normal st') batch"
    by (rule ext) (simp add: observerCallback_def)
  then show ?thesis by (simp add: observerCallback_def)
qed

lemma observerCallback_Nil: "observerCallback urls rnd [] st = Normal st"
  by (simp add: observerCallback_def)

lemma callback_Cons:
  "callback urls rnd (m # batch) st =
     and_then (for_each (callback_node urls rnd) (addedNodes m) st) (callback urls rnd batch)"
proof -
  have "callback urls rnd batch =
        for_each (\<lambda>record. for_each (callback_node urls rnd) (addedNodes record)) batch"
    by (rule ext) (simp add: callback_def)
  then show ?thesis by (simp add: callback_def)
qed

lemma callback_Nil: "callback urls rnd [] st = Normal st"
  by (simp add: callback_def)

section \<open>The callbacks queue nothing for themselves\<close>

lemma and_then_quiet:
  assumes "quiet q (page_of a)" and "\<And>s. quiet q s \<Longrightarrow> quiet q (page_of (f s))"
  shows "quiet q (page_of (and_then a f))"
  using assms by (cases a) simp_all

lemma for_each_quiet:
  assumes "\<And>x s. quiet q s \<Longrightarrow> quiet q (page_of (f x s))" and "quiet q st"
  shows "quiet q (page_of (for_each f xs st))"
  using assms by (rule for_each_page_of [where P = "quiet q"])

lemma assign_src_quiet: "quiet q st \<Longrightarrow> quiet q (page_of (assign_src n v st))"
  by (simp add: quiet_def assign_src_def notify_def interested_def attribute_record_def
      config_def split: option.splits)

lemma assign_srcset_quiet: "quiet q st \<Longrightarrow> quiet q (page_of (assign_srcset n v st))"
  by (simp add: quiet_def assign_srcset_def notify_def interested_def attribute_record_def
      config_def split: option.splits)

lemma cageifyImage_quiet:
  assumes "quiet q st"
  shows "quiet q (page_of (cageifyImage urls rnd n st))"
proof -
  have "quiet q (st\<lparr>random_calls := Suc (random_calls st)\<rparr>)"
    using assms by (simp add: quiet_def)
  then have "quiet q (page_of (and_then
      (assign_src n (fst (getRandomCageUrl urls rnd st))
         (st\<lparr>random_calls := Suc (random_calls st)\<rparr>))
      (assign_srcset n [])))"
    by (intro and_then_quiet assign_src_quiet assign_srcset_quiet)
  then show ?thesis by (simp add: cageifyImage_def getRandomCageUrl_def Let_def)
qed

lemma Cageify_replaceImage_quiet:
  assumes "quiet q st"
  shows "quiet q (page_of (Cageify_replaceImage urls rnd n st))"
proof -
  have "quiet q (st\<lparr>random_calls := Suc (random_calls st)\<rparr>)"
    using assms by (simp add: quiet_def)
  then have "quiet q (page_of
      (assign_src n (fst (Cageify_getRandomCageUrl urls rnd st))
         (st\<lparr>random_calls := Suc (random_calls st)\<rparr>)))"
    by (rule assign_src_quiet)
  then show ?thesis by (simp add: Cageify_replaceImage_def Cageify_getRandomCageUrl_def)
qed

lemma processNode_quiet:
  assumes "quiet q st"
  shows "quiet q (page_of (processNode urls rnd n st))"
proof -
  have "quiet q (page_of (for_each (cageifyImage urls rnd) (querySelectorAll_img n) st))"
    using cageifyImage_quiet assms by (rule for_each_quiet)
  then show ?thesis using assms by (simp add: processNode_def cageifyImage_quiet)
qed

lemma observerCallback_quiet:
  assumes "quiet q st"
  shows "quiet q (page_of (observerCallback urls rnd batch st))"
  unfolding observerCallback_def
proof (rule for_each_quiet [OF _ assms])
  fix m s
  assume s: "quiet q s"
  have "quiet q (page_of (for_each (processNode urls rnd) (addedNodes m) s))"
    using processNode_quiet s by (rule for_each_quiet)
  then show "quiet q (page_of (if type m = ''childList''
      then for_each (processNode urls rnd) (addedNodes m) s else Normal s))"
    using s by simp
qed

lemma callback_node_quiet:
  assumes "quiet q st"
  shows "quiet q (page_of (callback_node urls rnd n st))"
  unfolding callback_node_def
proof (rule and_then_quiet)
  show "quiet q (page_of
      (if nodeName n = ''IMG'' then Cageify_replaceImage urls rnd n st else Normal st))"
    using assms by (simp add: Cageify_replaceImage_quiet)
next
  fix s
  assume s: "quiet q s"
  have "quiet q (page_of (for_each (Cageify_replaceImage urls rnd) (querySelectorAll_img n) s))"
    using Cageify_replaceImage_quiet s by (rule for_each_quiet)
  then show "quiet q (page_of (if nodeType n = ELEMENT_NODE
      then for_each (Cageify_replaceImage urls rnd) (querySelectorAll_img n) s else Normal s))"
    using s by simp
qed

lemma callback_quiet:
  assumes "quiet q st"
  shows "quiet q (page_of (callback urls rnd batch st))"
  unfolding callback_def
proof (rule for_each_quiet [OF _ assms])
  fix m s
  assume s: "quiet q s"
  show "quiet q (page_of (for_each (callback_node urls rnd) (addedNodes m) s))"
    using callback_node_quiet s by (rule for_each_quiet)
qed

lemma observerCallback_childList_only:
  "observerCallback urls rnd batch st =
   observerCallback urls rnd (filter (\<lambda>m. type m = ''childList'') batch) st"
proof (induction batch arbitrary: st)
  case Nil
  show ?case by simp
next
  case (Cons m batch)
  have "and_then a (observerCallback urls rnd batch) =
        and_then a (observerCallback urls rnd (filter (\<lambda>m. type m = ''childList'') batch))"
    for a
    using Cons.IH by (rule and_then_cong_fun)
  then show ?case by (simp add: observerCallback_Cons)
qed

section \<open>Removed nodes\<close>

lemma observerCallback_removed:
  "observerCallback urls rnd (map (\<lambda>m. m\<lparr>removedNodes := f m\<rparr>) batch) st =
   observerCallback urls rnd batch st"
proof (induction batch arbitrary: st)
  case Nil
  show ?case by simp
next
  case (Cons m batch)
  have "and_then a (observerCallback urls rnd (map (\<lambda>m. m\<lparr>removedNodes := f m\<rparr>) batch)) =
        and_then a (observerCallback urls rnd batch)" for a
    using Cons.IH by (rule and_then_cong_fun)
  then show ?case by (simp add: observerCallback_Cons)
qed

lemma callback_removed:
  "callback urls rnd (map (\<lambda>m. m\<lparr>removedNodes := f m\<rparr>) batch) st =
   callback urls rnd batch st"
proof (induction batch arbitrary: st)
  case Nil
  show ?case by simp
next
  case (Cons m batch)
  have "and_then a (callback urls rnd (map (\<lambda>m. m\<lparr>removedNodes := f m\<rparr>) batch)) =
        and_then a (callback urls rnd batch)" for a
    using Cons.IH by (rule and_then_cong_fun)
  then show ?case by (simp add: callback_Cons)
qed

lemma observerCallback_nothing_added:
  "\<forall>m\<in>set batch. addedNodes m = [] \<Longrightarrow> observerCallback urls rnd batch st = Normal st"
  by (induction batch arbitrary: st) (simp_all add: observerCallback_Cons observerCallback_Nil)

lemma callback_nothing_added:
  "\<forall>m\<in>set batch. addedNodes m = [] \<Longrightarrow> callback urls rnd batch st = Normal st"
  by (induction batch arbitrary: st) (simp_all add: callback_Cons callback_Nil)

section \<open>The calls of \<open>replaceImage\<close> in the class-based callback\<close>

lemma callback_node_as_targets:
  "callback_node urls rnd n st =
   for_each (Cageify_replaceImage urls rnd) (callback_node_targets n) st"
  by (cases "Cageify_replaceImage urls rnd n st")
     (simp_all add: callback_node_def callback_node_targets_def)

lemma callback_as_targets:
  "callback urls rnd records st =
   for_each (Cageify_replaceImage urls rnd) (callback_targets records) st"
proof -
  have node: "callback_node urls rnd =
      (\<lambda>n. for_each (Cageify_replaceImage urls rnd) (callback_node_targets n))"
    by (intro ext) (rule callback_node_as_targets)
  have inner: "(\<lambda>record. for_each (callback_node urls rnd) (addedNodes record)) =
      (\<lambda>record. for_each (Cageify_replaceImage urls rnd)
         (concat (map callback_node_targets (addedNodes record))))"
    by (intro ext) (simp only: node for_each_concat)
  show ?thesis
    by (simp only: callback_def inner for_each_concat callback_targets_def)
qed

lemma count_list_filter_le: "count_list (map f (filter P xs)) i \<le> count_list (map f xs) i"
  by (induction xs) simp_all

lemma callback_node_targets_count:
  "count_list (map ident (callback_node_targets n)) i \<le>
   count_list (map ident (n # descendants n)) i"
  using count_list_filter_le [of ident matches_img "descendants n" i]
  by (simp add: callback_node_targets_def querySelectorAll_img_def)

lemma added_targets_count:
  "count_list (map ident (concat (map callback_node_targets ns))) i \<le>
   count_list (map ident (concat (map (\<lambda>n. n # descendants n) ns))) i"
proof (induction ns)
  case Nil
  show ?case by simp
next
  case (Cons n ns)
  have "count_list (map ident (callback_node_targets n)) i \<le>
        count_list (map ident (n # descendants n)) i"
    by (rule callback_node_targets_count)
  then have "count_list (map ident (callback_node_targets n)) i +
        count_list (map ident (concat (map callback_node_targets ns))) i \<le>
        count_list (map ident (n # descendants n)) i +
        count_list (map ident (concat (map (\<lambda>n. n # descendants n) ns))) i"
    using Cons.IH by (rule add_mono)
  then show ?case by (simp only: list.map concat.simps map_append count_list_append)
qed

lemma callback_targets_count:
  "count_list (map ident (callback_targets records)) i \<le>
   count_list (map ident (delivered_nodes records)) i"
proof (induction records)
  case Nil
  show ?case by (simp add: callback_targets_def delivered_nodes_def)
next
  case (Cons r records)
  have "count_list (map ident (concat (map callback_node_targets (addedNodes r)))) i \<le>
        count_list (map ident (concat (map (\<lambda>n. n # descendants n) (addedNodes r)))) i"
    by (rule added_targets_count)
  then have "count_list (map ident (concat (map callback_node_targets (addedNodes r)))) i +
        count_list (map ident (callback_targets records)) i \<le>
        count_list (map ident (concat (map (\<lambda>n. n # descendants n) (addedNodes r)))) i +
        count_list (map ident (delivered_nodes records)) i"
    using Cons.IH by (rule add_mono)
  then show ?case
    by (simp only: callback_targets_def delivered_nodes_def list.map concat.simps map_append
        count_list_append)
qed

lemma added_image_is_target:
  assumes "n \<in> set (concat (map addedNodes records))" and "nodeName n = ''IMG''"
  shows "n \<in> set (callback_targets records)"
  using assms by (auto simp add: callback_targets_def callback_node_targets_def)

lemma count_list_pos: "x \<in> set xs \<Longrightarrow> 0 < count_list xs x"
  using count_list_0_iff [of xs x] by simp

lemma Cageify_getRandomCageUrl_fst_cong:
  "random_calls st = random_calls st' \<Longrightarrow>
   fst (Cageify_getRandomCageUrl urls rnd st) = fst (Cageify_getRandomCageUrl urls rnd st')"
  by (simp add: Cageify_getRandomCageUrl_def)

lemma Cageify_replaceImage_effect:
  assumes "setter_throws (elements st (ident x)) = None"
  shows "\<exists>st'. Cageify_replaceImage urls rnd x st = Normal st' \<and>
           elements st' = (elements st)(ident x := (elements st (ident x))
             \<lparr>src := fst (Cageify_getRandomCageUrl urls rnd st)\<rparr>) \<and>
           random_calls st' = Suc (random_calls st)"
  using assms
  by (simp add: Cageify_replaceImage_def Cageify_getRandomCageUrl_def assign_src_def)

text \<open>
  A loop of \<open>replaceImage\<close> over elements whose setters do not throw makes one draw
  for each and changes no other element.
\<close>

lemma for_each_Cageify_replaceImage_frame:
  assumes "\<forall>x\<in>set xs. setter_throws (elements st (ident x)) = None"
  shows "\<exists>st'. for_each (Cageify_replaceImage urls rnd) xs st = Normal st' \<and>
           random_calls st' = random_calls st + length xs \<and>
           (\<forall>i. i \<notin> ident ` set xs \<longrightarrow> elements st' i = elements st i) \<and>
           (\<forall>i. setter_throws (elements st' i) = setter_throws (elements st i))"
  using assms
proof (induction xs arbitrary: st)
  case Nil
  show ?case by simp
next
  case (Cons x xs)
  have "setter_throws (elements st (ident x)) = None" using Cons.prems by simp
  from Cageify_replaceImage_effect [OF this, of urls rnd]
  obtain st1 where st1: "Cageify_replaceImage urls rnd x st = Normal st1"
    and el1: "elements st1 = (elements st)(ident x := (elements st (ident x))
             \<lparr>src := fst (Cageify_getRandomCageUrl urls rnd st)\<rparr>)"
    and rc1: "random_calls st1 = Suc (random_calls st)"
    by blast
  have same: "setter_throws (elements st1 i) = setter_throws (elements st i)" for i
    by (simp add: el1)
  have "\<forall>y\<in>set xs. setter_throws (elements st1 (ident y)) = None"
    using Cons.prems same by simp
  from Cons.IH [OF this]
  obtain st' where "for_each (Cageify_replaceImage urls rnd) xs st1 = Normal st'"
    "random_calls st' = random_calls st1 + length xs"
    "\<forall>i. i \<notin> ident ` set xs \<longrightarrow> elements st' i = elements st1 i"
    "\<forall>i. setter_throws (elements st' i) = setter_throws (elements st1 i)"
    by blast
  then show ?case using st1 rc1 same by (simp add: el1)
qed

text \<open>
  The element at a position of such a loop, when no other position holds it, ends
  with what the draw of its position selects.
\<close>

lemma for_each_Cageify_replaceImage_at:
  assumes nf: "\<forall>y\<in>set (ys @ x # zs). setter_throws (elements st (ident y)) = None"
    and ys: "ident x \<notin> ident ` set ys" and zs: "ident x \<notin> ident ` set zs"
  shows "\<exists>st'. for_each (Cageify_replaceImage urls rnd) (ys @ x # zs) st = Normal st' \<and>
           random_calls st' = random_calls st + length (ys @ x # zs) \<and>
           elements st' (ident x) =
             (elements st (ident x))
               \<lparr>src := fst (Cageify_getRandomCageUrl urls rnd
                               (st\<lparr>random_calls := random_calls st + length ys\<rparr>))\<rparr>"
proof -
  have "\<forall>y\<in>set ys. setter_throws (elements st (ident y)) = None" using nf by simp
  from for_each_Cageify_replaceImage_frame [OF this, of urls rnd]
  obtain st1 where st1: "for_each (Cageify_replaceImage urls rnd) ys st = Normal st1"
    and rc1: "random_calls st1 = random_calls st + length ys"
    and fr1: "\<forall>i. i \<notin> ident ` set ys \<longrightarrow> elements st1 i = elements st i"
    and same1: "\<forall>i. setter_throws (elements st1 i) = setter_throws (elements st i)"
    by blast
  have "setter_throws (elements st1 (ident x)) = None" using nf same1 by simp
  from Cageify_replaceImage_effect [OF this, of urls rnd]
  obtain st2 where st2: "Cageify_replaceImage urls rnd x st1 = Normal st2"
    and el2: "elements st2 = (elements st1)(ident x := (elements st1 (ident x))
             \<lparr>src := fst (Cageify_getRandomCageUrl urls rnd st1)\<rparr>)"
    and rc2: "random_calls st2 = Suc (random_calls st1)"
    by blast
  have "\<forall>y\<in>set zs. setter_throws (elements st2 (ident y)) = None"
    using nf same1 by (simp add: el2)
  from for_each_Cageify_replaceImage_frame [OF this, of urls rnd]
  obtain st3 where st3: "for_each (Cageify_replaceImage urls rnd) zs st2 = Normal st3"
    and rc3: "random_calls st3 = random_calls st2 + length zs"
    and fr3: "\<forall>i. i \<notin> ident ` set zs \<longrightarrow> elements st3 i = elements st2 i"
    by blast
  have run: "for_each (Cageify_replaceImage urls rnd) (ys @ x # zs) st = Normal st3"
    by (simp add: for_each_append st1 st2 st3)
  have pick: "fst (Cageify_getRandomCageUrl urls rnd st1) =
      fst (Cageify_getRandomCageUrl urls rnd (st\<lparr>random_calls := random_calls st + length ys\<rparr>))"
    by (rule Cageify_getRandomCageUrl_fst_cong) (simp add: rc1)
  have "elements st3 (ident x) = elements st2 (ident x)" using fr3 zs by simp
  also have "\<dots> = (elements st1 (ident x))\<lparr>src := fst (Cageify_getRandomCageUrl urls rnd st1)\<rparr>"
    by (simp add: el2)
  also have "elements st1 (ident x) = elements st (ident x)" using fr1 ys by simp
  finally have "elements st3 (ident x) =
      (elements st (ident x))
        \<lparr>src := fst (Cageify_getRandomCageUrl urls rnd
                        (st\<lparr>random_calls := random_calls st + length ys\<rparr>))\<rparr>"
    by (simp add: pick)
  then show ?thesis using run rc1 rc2 rc3 by simp
qed

lemma count_one_split:
  assumes "count_list (map ident xs) i = 1"
  shows "\<exists>ys x zs. xs = ys @ x # zs \<and> ident x = i \<and>
           i \<notin> ident ` set ys \<and> i \<notin> ident ` set zs"
  using assms
proof (induction xs)
  case Nil
  then show ?case by simp
next
  case (Cons a xs)
  show ?case
  proof (cases "ident a = i")
    case True
    then have "count_list (map ident xs) i = 0" using Cons.prems by simp
    then have "i \<notin> ident ` set xs" by (simp add: count_list_0_iff)
    then have "a # xs = [] @ a # xs \<and> ident a = i \<and>
        i \<notin> ident ` set ([] :: node list) \<and> i \<notin> ident ` set xs"
      using True by simp
    then show ?thesis by blast
  next
    case False
    then have "count_list (map ident xs) i = 1" using Cons.prems by simp
    from Cons.IH [OF this]
    obtain ys x zs where "xs = ys @ x # zs" "ident x = i"
      "i \<notin> ident ` set ys" "i \<notin> ident ` set zs"
      by blast
    then have "a # xs = (a # ys) @ x # zs \<and> ident x = i \<and>
        i \<notin> ident ` set (a # ys) \<and> i \<notin> ident ` set zs"
      using False by auto
    then show ?thesis by blast
  qed
qed

section \<open>The initial loop\<close>

lemma replace_src_srcset:
  "srcset (elements (page_of (replace_src urls rnd img st)) i) = srcset (elements st i)"
  by (simp add: replace_src_def getRandomCageUrl_def Let_def assign_src_def split: option.splits)

lemma sweep_srcset:
  "srcset (elements (page_of (for_each (replace_src urls rnd) imgs st)) i) =
   srcset (elements st i)"
proof -
  have "(\<lambda>s. srcset (elements s i) = srcset (elements st i))
          (page_of (for_each (replace_src urls rnd) imgs st))"
    by (rule for_each_page_of) (simp_all add: replace_src_srcset)
  then show ?thesis .
qed

text \<open>The content script never changes a \<open>srcset\<close> while it runs from top to bottom.\<close>

lemma main_srcset:
  "srcset (elements (page_of (main urls rnd document st)) i) = srcset (elements st i)"
proof -
  let ?st2 = "console_log
        (''Cageify TS found '' @ show_nat (length (getElementsByTagName_img document)) @
           '' images. Replacing...'')
        (checkRep urls (console_log ''Cageify TS Content Script Loaded!'' st))"
  let ?r = "for_each (replace_src urls rnd) (getElementsByTagName_img document) ?st2"
  have keep: "srcset (elements (page_of ?r) i) = srcset (elements st i)"
    by (simp add: sweep_srcset)
  show ?thesis
  proof (cases ?r)
    case (Normal st3)
    then show ?thesis using keep by (simp add: main_def main_try_def Let_def observe_def)
  next
    case (Throw e st3)
    then show ?thesis using keep by (cases e) (simp_all add: main_def main_try_def Let_def)
  qed
qed

lemma replace_src_normal:
  assumes "setter_throws (elements st (ident x)) = None"
  shows "\<exists>st'. replace_src urls rnd x st = Normal st' \<and>
           (\<forall>i. setter_throws (elements st' i) = setter_throws (elements st i)) \<and>
           console st' = console st \<and> observer st' = observer st"
  using assms by (simp add: replace_src_def getRandomCageUrl_def Let_def assign_src_def)

lemma replace_src_throws:
  assumes "setter_throws (elements st (ident x)) = Some e"
  shows "\<exists>st'. replace_src urls rnd x st = Throw e st' \<and>
           console st' = console st \<and> observer st' = observer st"
  using assms by (simp add: replace_src_def getRandomCageUrl_def Let_def assign_src_def)

text \<open>The loop stops at the first image whose setter throws, with what it throws.\<close>

lemma sweep_first_fault:
  assumes "k < length imgs"
    and "setter_throws (elements st (ident (imgs ! k))) = Some e"
    and "\<forall>j<k. setter_throws (elements st (ident (imgs ! j))) = None"
  shows "\<exists>st'. for_each (replace_src urls rnd) imgs st = Throw e st' \<and>
           console st' = console st \<and> observer st' = observer st"
  using assms
proof (induction imgs arbitrary: k st)
  case Nil
  then show ?case by simp
next
  case (Cons x xs)
  show ?case
  proof (cases k)
    case 0
    then have "setter_throws (elements st (ident x)) = Some e" using Cons.prems(2) by simp
    from replace_src_throws [OF this, of urls rnd] show ?thesis by auto
  next
    case (Suc k')
    have "setter_throws (elements st (ident x)) = None"
      using Cons.prems(3) Suc by auto
    from replace_src_normal [OF this, of urls rnd]
    obtain st1 where st1: "replace_src urls rnd x st = Normal st1"
      and same: "\<forall>i. setter_throws (elements st1 i) = setter_throws (elements st i)"
      and co: "console st1 = console st" and ob: "observer st1 = observer st"
      by blast
    have a: "k' < length xs" using Cons.prems(1) Suc by simp
    have b: "setter_throws (elements st1 (ident (xs ! k'))) = Some e"
      using Cons.prems(2) Suc same by simp
    have c: "\<forall>j<k'. setter_throws (elements st1 (ident (xs ! j))) = None"
    proof (intro allI impI)
      fix j
      assume "j < k'"
      then have "Suc j < k" using Suc by simp
      then have "setter_throws (elements st (ident ((x # xs) ! Suc j))) = None"
        using Cons.prems(3) by blast
      then show "setter_throws (elements st1 (ident (xs ! j))) = None" using same by simp
    qed
    from Cons.IH [OF a b c]
    obtain st' where "for_each (replace_src urls rnd) xs st1 = Throw e st'"
      "console st' = console st1" "observer st' = observer st1"
      by blast
    then show ?thesis using st1 co ob by simp
  qed
qed

section \<open>The example inputs, evaluated\<close>

lemma length_CAGE_URLS: "length CAGE_URLS = 5"
  by (simp add: CAGE_URLS_def)

lemma qualified_name_None [simp]: "qualified_name None l = l"
  by (simp add: qualified_name_def)

lemma ascii_upper_samples [simp]:
  "ascii_upper CHR ''i'' = CHR ''I''"
  "ascii_upper CHR ''m'' = CHR ''M''"
  "ascii_upper CHR ''g'' = CHR ''G''"
  "ascii_upper CHR ''d'' = CHR ''D''"
  "ascii_upper CHR ''v'' = CHR ''V''"
  "ascii_upper CHR ''p'' = CHR ''P''"
  by (simp_all add: ascii_upper_def)

lemma sample_images: "getElementsByTagName_img sample_document = [sample_img]"
  by (simp add: getElementsByTagName_img_def sample_document_def sample_img_def)

lemma sample_div_images:
  "filter matches_img (descendants sample_div) =
     [Element 5 True None ''img'' [], Element 8 True None ''img'' []]"
  by (simp add: sample_div_def)

lemma unit_interval_quarters: "unit_interval_double (quarters k)"
  by (simp add: unit_interval_double_def quarters_def)

lemma quarters_index: "k < 4 \<Longrightarrow> Math_floor (times_length (quarters k) 5) = k"
  by (simp add: Math_floor_def times_length_def quarters_def round_to_nearest_small)

lemma quarters_pick:
  "random_calls st < 4 \<Longrightarrow>
   fst (getRandomCageUrl CAGE_URLS quarters st) = Some (CAGE_URLS ! random_calls st)"
  using quarters_index [of "random_calls st"]
  by (simp add: getRandomCageUrl_def Let_def array_get_def length_CAGE_URLS)

lemma show_nat_1: "show_nat (Suc 0) = ''1''"
  by (subst show_nat.simps) simp

lemma main_sample:
  "main CAGE_URLS quarters sample_document sample_page =
     Normal (sample_page
       \<lparr>elements := (elements sample_page)
          (3 := (elements sample_page 3)\<lparr>src := Some (CAGE_URLS ! 0)\<rparr>),
        random_calls := 1,
        console := [''Cageify TS Content Script Loaded!'',
                    ''Cageify TS found 1 images. Replacing...'',
                    ''Cageify TS replacement complete!''],
        observer := Some config\<rparr>)"
proof -
  have silent: "checkRep CAGE_URLS st = st" for st
    by (simp add: checkRep_def console_assert_def CAGE_URLS_def)
  have pick: "array_get CAGE_URLS (Math_floor (times_length (quarters 0) (length CAGE_URLS))) =
      Some (CAGE_URLS ! 0)"
    using quarters_index [of 0] by (simp add: array_get_def length_CAGE_URLS)
  show ?thesis
    unfolding main_def main_try_def Let_def sample_images silent
    by (simp add: pick show_nat_1 console_log_def replace_src_def getRandomCageUrl_def
        assign_src_def notify_def sample_page_def sample_img_def observe_def)
qed

lemma sample_batch_targets:
  "callback_targets sample_batch =
     [Element 5 True None ''img'' [], Element 8 True None ''img'' [], sample_img]"
  using sample_div_images
  by (simp add: callback_targets_def sample_batch_def callback_node_targets_def
      querySelectorAll_img_def sample_img_def sample_div_def)

section \<open>\<open>processNode\<close> of the content script\<close>

text \<open>
  \<open>processNode\<close> treats a node in exactly one of three ways. If its \<open>nodeName\<close> is
  \<open>IMG\<close>, one replacement is made, on the node itself: it alone gets a new \<open>src\<close>
  (what the next call of \<open>Math.random()\<close> selects) and an empty \<open>srcset\<close>.
  Otherwise, if the node is an element, every descendant the selector \<open>img\<close>
  matches is replaced, in pre-order: the \<open>j\<close>-th of them gets what the \<open>j\<close>-th next
  call of \<open>Math.random()\<close> selects and an empty \<open>srcset\<close>, and nothing else changes.
  Otherwise the page is left as it was. This holds when no setter of the elements
  concerned throws and the images of the subtree are distinct objects.
\<close>

lemma processNode_three_ways:
  assumes "\<forall>x\<in>set (n # filter matches_img (descendants n)).
             setter_throws (elements st (ident x)) = None"
    and "distinct (map ident (filter matches_img (descendants n)))"
  shows "\<exists>st'. processNode urls rnd n st = Normal st' \<and>
    (if nodeName n = ''IMG'' then
       random_calls st' = Suc (random_calls st) \<and>
       elements st' = (elements st)(ident n := (elements st (ident n))
          \<lparr>src := fst (getRandomCageUrl urls rnd st), srcset := []\<rparr>)
     else if nodeType n = ELEMENT_NODE then
       random_calls st' = random_calls st + length (filter matches_img (descendants n)) \<and>
       (\<forall>j<length (filter matches_img (descendants n)).
          elements st' (ident (filter matches_img (descendants n) ! j)) =
            (elements st (ident (filter matches_img (descendants n) ! j)))
              \<lparr>src := fst (getRandomCageUrl urls rnd
                              (st\<lparr>random_calls := random_calls st + j\<rparr>)),
               srcset := []\<rparr>) \<and>
       (\<forall>i. i \<notin> ident ` set (filter matches_img (descendants n)) \<longrightarrow>
              elements st' i = elements st i)
     else st' = st)"
proof (cases "nodeName n = ''IMG''")
  case True
  have "setter_throws (elements st (ident n)) = None" using assms(1) by simp
  from cageifyImage_normal [OF this, of urls rnd] True show ?thesis
    by (auto simp add: processNode_def)
next
  case notimg: False
  show ?thesis
  proof (cases "nodeType n = ELEMENT_NODE")
    case True
    have nf: "\<forall>x\<in>set (filter matches_img (descendants n)).
                setter_throws (elements st (ident x)) = None"
      using assms(1) by simp
    from for_each_cageifyImage [OF nf assms(2), of urls rnd]
    obtain st' where
      "for_each (cageifyImage urls rnd) (filter matches_img (descendants n)) st = Normal st'"
      "random_calls st' = random_calls st + length (filter matches_img (descendants n))"
      "\<forall>j<length (filter matches_img (descendants n)).
          elements st' (ident (filter matches_img (descendants n) ! j)) =
            (elements st (ident (filter matches_img (descendants n) ! j)))
              \<lparr>src := fst (getRandomCageUrl urls rnd
                              (st\<lparr>random_calls := random_calls st + j\<rparr>)),
               srcset := []\<rparr>"
      "\<forall>i. i \<notin> ident ` set (filter matches_img (descendants n)) \<longrightarrow>
         elements st' i = elements st i"
      by blast
    then show ?thesis using notimg True
      by (simp add: processNode_def querySelectorAll_img_def)
  next
    case False
    then show ?thesis using notimg by (simp add: processNode_def)
  qed
qed

section \<open>The claims\<close>

text \<open>
  Claim C1 asks that an added node be treated in exactly one of three ways: an image
  is replaced itself (new \<open>src\<close>, \<open>srcset\<close> cleared), any other element has the
  images below it replaced, any other node is left alone. \<open>processNode\<close> of the
  content script does so (\<open>processNode_three_ways\<close>). The class-based callback has
  no \<open>else\<close> between its two tests and its \<open>replaceImage\<close> does not touch
  \<open>srcset\<close>: for an image element that holds an image element it draws twice and
  replaces both, and it leaves the \<open>srcset\<close> of the image it replaces, where
  \<open>processNode\<close> draws once, replaces the outer image alone and clears its
  \<open>srcset\<close>.
\<close>

theorem callback_runs_both_tests:
  "nodeName nested_img = ''IMG'' \<and>
   random_calls (page_of (callback_node CAGE_URLS quarters nested_img sample_page)) = 2 \<and>
   elements (page_of (callback_node CAGE_URLS quarters nested_img sample_page)) 10 =
     \<lparr>src = Some (CAGE_URLS ! 0), srcset = ''photo-2x.png 2x'', setter_throws = None\<rparr> \<and>
   elements (page_of (callback_node CAGE_URLS quarters nested_img sample_page)) 11 =
     \<lparr>src = Some (CAGE_URLS ! 1), srcset = ''photo-2x.png 2x'', setter_throws = None\<rparr> \<and>
   random_calls (page_of (processNode CAGE_URLS quarters nested_img sample_page)) = 1 \<and>
   elements (page_of (processNode CAGE_URLS quarters nested_img sample_page)) 10 =
     \<lparr>src = Some (CAGE_URLS ! 0), srcset = [], setter_throws = None\<rparr> \<and>
   elements (page_of (processNode CAGE_URLS quarters nested_img sample_page)) 11 =
     \<lparr>src = Some ''photo.png'', srcset = ''photo-2x.png 2x'', setter_throws = None\<rparr> \<and>
   elements (page_of (callback_node CAGE_URLS quarters sample_img sample_page)) 3 =
     \<lparr>src = Some (CAGE_URLS ! 0), srcset = ''photo-2x.png 2x'', setter_throws = None\<rparr>"
proof -
  have pick0: "array_get CAGE_URLS (Math_floor (times_length (quarters 0) 5)) =
      Some (CAGE_URLS ! 0)"
    using quarters_index [of 0] by (simp add: array_get_def length_CAGE_URLS)
  have pick1: "array_get CAGE_URLS (Math_floor (times_length (quarters (Suc 0)) 5)) =
      Some (CAGE_URLS ! 1)"
    using quarters_index [of 1] by (simp add: array_get_def length_CAGE_URLS)
  show ?thesis
    by (simp add: pick0 pick1 length_CAGE_URLS callback_node_def processNode_def
        cageifyImage_def Cageify_replaceImage_def getRandomCageUrl_def
        Cageify_getRandomCageUrl_def Let_def assign_src_def assign_srcset_def notify_def
        querySelectorAll_img_def nested_img_def sample_img_def sample_page_def ELEMENT_NODE_def)
qed

text \<open>
  Claim C2 asks that after the initial sweep every image has a \<open>src\<close> from the list
  and an empty \<open>srcset\<close>. The initial loop of the content script assigns \<open>src\<close> only
  (\<open>main_srcset\<close>), and so does \<open>replaceImage\<close> of the class-based script: on a
  document with one image whose \<open>srcset\<close> is \<open>photo-2x.png 2x\<close>, both scripts give
  the image a \<open>src\<close> from the list and leave its \<open>srcset\<close> as it was.
\<close>

theorem sweep_keeps_srcset:
  "src (elements (page_of (main CAGE_URLS quarters sample_document sample_page)) 3) =
     Some (CAGE_URLS ! 0) \<and>
   srcset (elements (page_of (main CAGE_URLS quarters sample_document sample_page)) 3) =
     ''photo-2x.png 2x'' \<and>
   src (elements (page_of (Cageify_script CAGE_URLS quarters sample_document sample_page)) 3) =
     Some (CAGE_URLS ! 0) \<and>
   srcset (elements (page_of (Cageify_script CAGE_URLS quarters sample_document sample_page)) 3) =
     ''photo-2x.png 2x''"
proof -
  have "srcset (elements (page_of (main CAGE_URLS quarters sample_document sample_page)) 3) =
          ''photo-2x.png 2x''"
    by (simp add: main_srcset sample_page_def)
  moreover have
    "src (elements (page_of (main CAGE_URLS quarters sample_document sample_page)) 3) =
       Some (CAGE_URLS ! 0)"
    by (simp add: main_sample)
  moreover have pick:
    "array_get CAGE_URLS (Math_floor (times_length (quarters 0) (length CAGE_URLS))) =
       Some (CAGE_URLS ! 0)"
    using quarters_index [of 0] by (simp add: array_get_def length_CAGE_URLS)
  have "Cageify_script CAGE_URLS quarters sample_document sample_page =
     Normal (observe config
       (Cageify_checkRep CAGE_URLS (console_log ''already using typescript'' sample_page)
         \<lparr>random_calls := 1,
          elements := (elements sample_page)
            (3 := (elements sample_page 3)\<lparr>src := Some (CAGE_URLS ! 0)\<rparr>)\<rparr>))"
    unfolding Cageify_script_def Cageify_constructor_def sample_images
    by (simp add: pick Cageify_replaceImage_def Cageify_getRandomCageUrl_def assign_src_def
        notify_def Cageify_checkRep_fields console_log_def sample_img_def sample_page_def)
  then have
    "src (elements (page_of (Cageify_script CAGE_URLS quarters sample_document sample_page)) 3) =
       Some (CAGE_URLS ! 0) \<and>
     srcset (elements (page_of (Cageify_script CAGE_URLS quarters sample_document sample_page)) 3) =
       ''photo-2x.png 2x''"
    by (simp add: observe_def sample_page_def)
  ultimately show ?thesis by simp
qed

text \<open>
  Claim C3 asks that an invalid list aborts the activation before any image is
  touched. \<open>console.assert\<close> only prints: with the empty list the content script
  reports the failure, then replaces the image all the same (its \<open>src\<close> becomes
  \<open>undefined\<close>) and registers the observer; with a list holding the empty string the
  image gets the empty string; a string that is no URL is not even reported by the
  content script, and the class-based script reports it and assigns it, as it
  reports an empty list and goes on.
\<close>

theorem invalid_list_still_replaces:
  "console (page_of (main [] quarters sample_document sample_page)) =
     [''Cageify TS Content Script Loaded!'',
      ''Assertion failed: RI Fail: CAGE_URLS is empty.'',
      ''Cageify TS found 1 images. Replacing...'',
      ''Cageify TS replacement complete!''] \<and>
   src (elements sample_page 3) = Some ''photo.png'' \<and>
   src (elements (page_of (main [] quarters sample_document sample_page)) 3) = None \<and>
   observer (page_of (main [] quarters sample_document sample_page)) = Some config \<and>
   src (elements (page_of (main [[]] quarters sample_document sample_page)) 3) = Some [] \<and>
   src (elements (page_of (main [''not a url''] quarters sample_document sample_page)) 3) =
     Some ''not a url'' \<and>
   console (page_of (main [''not a url''] quarters sample_document sample_page)) =
     [''Cageify TS Content Script Loaded!'',
      ''Cageify TS found 1 images. Replacing...'',
      ''Cageify TS replacement complete!''] \<and>
   Cageify_script [''not a url''] quarters sample_document sample_page =
     Normal (sample_page
       \<lparr>elements := (elements sample_page)
          (3 := (elements sample_page 3)\<lparr>src := Some ''not a url''\<rparr>),
        random_calls := 1,
        console := [''already using typescript'',
                    ''Assertion failed: CAGE_URLS must contain valid urls''],
        observer := Some config\<rparr>) \<and>
   Cageify_script [] quarters sample_document sample_page =
     Normal (sample_page
       \<lparr>elements := (elements sample_page)(3 := (elements sample_page 3)\<lparr>src := None\<rparr>),
        random_calls := 1,
        console := [''already using typescript'',
                    ''Assertion failed: CAGE_URLS must not be empty''],
        observer := Some config\<rparr>)"
proof -
  have idx: "\<And>r. Math_floor (times_length r 0) = 0" by (rule random_index_empty)
  have idx1: "Math_floor (times_length (quarters 0) (Suc 0)) = 0"
    by (simp add: Math_floor_def times_length_def quarters_def round_to_nearest_small)
  show ?thesis
    unfolding main_def main_try_def Let_def sample_images Cageify_script_def
      Cageify_constructor_def
    by (simp add: show_nat_1 idx idx1 checkRep_def console_assert_def console_log_def
        replace_src_def getRandomCageUrl_def assign_src_def notify_def sample_page_def
        sample_img_def observe_def array_get_def Cageify_checkRep_def Cageify_replaceImage_def
        Cageify_getRandomCageUrl_def)
qed

text \<open>
  Claim C4. When the list passes the invariant check of either script without a
  failure being printed (so it is not empty), a call of \<open>getRandomCageUrl\<close>, in
  either script, returns a member of the list: the index computed from any double
  \<open>Math.random()\<close> can return is inside the array.
\<close>

theorem pick_returns_member:
  assumes "console (checkRep urls st0) = console st0 \<or>
           console (Cageify_checkRep urls st0) = console st0"
    and "unit_interval_double (rnd (random_calls st))"
  shows "Math_floor (times_length (rnd (random_calls st)) (length urls)) < length urls \<and>
         (\<exists>u\<in>set urls. fst (getRandomCageUrl urls rnd st) = Some u \<and>
                        fst (Cageify_getRandomCageUrl urls rnd st) = Some u)"
proof -
  have "urls \<noteq> []" using assms(1) by (auto simp add: checkRep_silent Cageify_checkRep_silent)
  then have "0 < length urls" by simp
  with assms(2) have "Math_floor (times_length (rnd (random_calls st)) (length urls)) < length urls"
    by (rule random_index_in_bounds)
  then show ?thesis
    by (simp add: Cageify_getRandomCageUrl_eq getRandomCageUrl_def Let_def array_get_def)
qed

theorem pick_returns_member_witness:
  "console (Cageify_checkRep CAGE_URLS sample_page) = console sample_page \<and>
   unit_interval_double (quarters (random_calls (sample_page\<lparr>random_calls := 2\<rparr>))) \<and>
   (\<exists>u\<in>set CAGE_URLS.
      fst (getRandomCageUrl CAGE_URLS quarters (sample_page\<lparr>random_calls := 2\<rparr>)) = Some u \<and>
      fst (Cageify_getRandomCageUrl CAGE_URLS quarters (sample_page\<lparr>random_calls := 2\<rparr>)) =
        Some u)"
proof -
  have a: "console (Cageify_checkRep CAGE_URLS sample_page) = console sample_page"
    by (simp add: Cageify_checkRep_silent CAGE_URLS_def)
  have b: "unit_interval_double (quarters (random_calls (sample_page\<lparr>random_calls := 2\<rparr>)))"
    by (rule unit_interval_quarters)
  from a b
    pick_returns_member [of CAGE_URLS sample_page quarters "sample_page\<lparr>random_calls := 2\<rparr>"]
  show ?thesis by blast
qed

text \<open>
  Claim C5. The options the scripts pass to \<open>observe\<close> do not ask for attribute
  records. Once that observer is registered, a run of either callback on any batch
  queues no record for it (its own assignments to \<open>src\<close> and \<open>srcset\<close> are attribute
  changes), so the replacement of an image causes no further delivery; and the
  callback of the content script acts on the child-list records of a batch only.
\<close>

theorem no_reprocessing_loop:
  assumes "observer st = Some config"
  shows "\<not> interested config attribute_record \<and>
         queue (page_of (observerCallback urls rnd batch st)) = queue st \<and>
         queue (page_of (callback urls rnd batch st)) = queue st \<and>
         observerCallback urls rnd batch st =
           observerCallback urls rnd (filter (\<lambda>m. type m = ''childList'') batch) st"
proof -
  have q: "quiet (queue st) st" using assms by (simp add: quiet_def)
  have "quiet (queue st) (page_of (observerCallback urls rnd batch st))"
    using q by (rule observerCallback_quiet)
  moreover have "quiet (queue st) (page_of (callback urls rnd batch st))"
    using q by (rule callback_quiet)
  moreover have "\<not> interested config attribute_record"
    by (simp add: interested_def config_def attribute_record_def)
  ultimately show ?thesis
    using observerCallback_childList_only [of urls rnd batch st] by (simp add: quiet_def)
qed

text \<open>
  An instance: the page as the content script leaves it, then a batch that reports a
  new image.
\<close>

theorem no_reprocessing_loop_witness:
  "observer (page_of (main CAGE_URLS quarters sample_document sample_page)) = Some config \<and>
   queue (page_of (observerCallback CAGE_URLS quarters
      [\<lparr>type = ''childList'', addedNodes = [Element 9 True None ''img'' []], removedNodes = []\<rparr>]
      (page_of (main CAGE_URLS quarters sample_document sample_page)))) = []"
proof -
  have a: "observer (page_of (main CAGE_URLS quarters sample_document sample_page)) = Some config"
    by (simp add: main_sample)
  have b: "queue (page_of (main CAGE_URLS quarters sample_document sample_page)) = []"
    unfolding main_sample by (simp add: sample_page_def)
  from no_reprocessing_loop [OF a, of CAGE_URLS quarters
      "[\<lparr>type = ''childList'', addedNodes = [Element 9 True None ''img'' []], removedNodes = []\<rparr>]"]
    a b
  show ?thesis by simp
qed

text \<open>
  Claim C6. The callbacks never look at the removed nodes of a record: replacing the
  removed nodes of the records by anything else changes nothing. A batch whose
  records add no node (removals only) completes normally and leaves the page, and so
  the fields of the removed elements, unchanged.
\<close>

theorem removal_is_noop:
  "observerCallback urls rnd (map (\<lambda>m. m\<lparr>removedNodes := f m\<rparr>) batch) st =
     observerCallback urls rnd batch st \<and>
   callback urls rnd (map (\<lambda>m. m\<lparr>removedNodes := f m\<rparr>) batch) st =
     callback urls rnd batch st \<and>
   ((\<forall>m\<in>set batch. addedNodes m = []) \<longrightarrow>
      observerCallback urls rnd batch st = Normal st \<and> callback urls rnd batch st = Normal st)"
  by (simp add: observerCallback_removed callback_removed observerCallback_nothing_added
      callback_nothing_added)

theorem removal_is_noop_witness:
  "addedNodes \<lparr>type = ''childList'', addedNodes = [], removedNodes = [sample_img]\<rparr> = [] \<and>
   observerCallback CAGE_URLS quarters
     [\<lparr>type = ''childList'', addedNodes = [], removedNodes = [sample_img]\<rparr>] sample_page =
     Normal sample_page \<and>
   callback CAGE_URLS quarters
     [\<lparr>type = ''childList'', addedNodes = [], removedNodes = [sample_img]\<rparr>] sample_page =
     Normal sample_page"
  using removal_is_noop [of CAGE_URLS quarters "\<lambda>_. []"
      "[\<lparr>type = ''childList'', addedNodes = [], removedNodes = [sample_img]\<rparr>]" sample_page]
  by simp

text \<open>
  Claim C7 says that every error raised during the initial sweep or during the
  processing of a batch is caught by the script, logged and kept from propagating.
  For the processing of a batch this fails: the callback runs after the \<open>try\<close> block
  has been left. On a page where assigning to the image throws, the callback of the
  content script completes by throwing that error, and nothing is printed.
\<close>

theorem callback_error_escapes:
  "observerCallback CAGE_URLS quarters
     [\<lparr>type = ''childList'', addedNodes = [sample_img], removedNodes = []\<rparr>] read_only_page =
   Throw (Error ''src is read-only'') (read_only_page\<lparr>random_calls := 1\<rparr>)"
  by (simp add: observerCallback_def processNode_def cageifyImage_def getRandomCageUrl_def Let_def
      assign_src_def sample_img_def read_only_page_def sample_page_def)

text \<open>
  Claim C7, for the initial sweep. When the first image of the document whose setter
  throws is the \<open>k\<close>-th and throws \<open>e\<close>, the content script still completes normally:
  the error is caught, the last line of the console is the report of \<open>e\<close> (with its
  message when it is an \<open>Error\<close>), and no observer is registered.
\<close>

theorem sweep_error_is_caught:
  assumes "k < length (getElementsByTagName_img document)"
    and "setter_throws (elements st (ident (getElementsByTagName_img document ! k))) = Some e"
    and "\<forall>j<k. setter_throws (elements st (ident (getElementsByTagName_img document ! j))) = None"
  shows "\<exists>st'. main urls rnd document st = Normal st' \<and>
           last (console st') = report e \<and> observer st' = observer st"
proof -
  let ?st2 = "console_log
        (''Cageify TS found '' @ show_nat (length (getElementsByTagName_img document)) @
           '' images. Replacing...'')
        (checkRep urls (console_log ''Cageify TS Content Script Loaded!'' st))"
  have b: "setter_throws (elements ?st2 (ident (getElementsByTagName_img document ! k))) = Some e"
    using assms(2) by simp
  have c: "\<forall>j<k. setter_throws (elements ?st2 (ident (getElementsByTagName_img document ! j))) =
             None"
    using assms(3) by simp
  from sweep_first_fault [OF assms(1) b c, of urls rnd]
  obtain st' where
    "for_each (replace_src urls rnd) (getElementsByTagName_img document) ?st2 = Throw e st'"
    "observer st' = observer ?st2"
    by blast
  then show ?thesis
    by (cases e) (simp_all add: main_def main_try_def Let_def report_def console_error_def)
qed

theorem sweep_error_is_caught_witness:
  "0 < length (getElementsByTagName_img sample_document) \<and>
   setter_throws (elements read_only_page (ident (getElementsByTagName_img sample_document ! 0))) =
     Some (Error ''src is read-only'') \<and>
   (\<exists>st'. main CAGE_URLS quarters sample_document read_only_page = Normal st' \<and>
      last (console st') = ''Cageify TS Error: src is read-only'' \<and> observer st' = None)"
proof -
  have a: "0 < length (getElementsByTagName_img sample_document)"
    by (simp add: sample_images)
  have b: "setter_throws (elements read_only_page
             (ident (getElementsByTagName_img sample_document ! 0))) =
     Some (Error ''src is read-only'')"
    by (simp add: sample_images sample_img_def read_only_page_def)
  have c: "\<forall>j<0::nat. setter_throws (elements read_only_page
      (ident (getElementsByTagName_img sample_document ! j))) = None"
    by simp
  from sweep_error_is_caught [OF a b c, of CAGE_URLS quarters] a b show ?thesis
    by (simp add: report_def read_only_page_def sample_page_def)
qed

text \<open>
  Claim C8 says that the two scripts replace an image in the same way, assigning the
  picked URL to \<open>src\<close> and clearing \<open>srcset\<close>. They agree on \<open>src\<close>; on an image whose
  \<open>srcset\<close> is \<open>photo-2x.png 2x\<close>, \<open>cageifyImage\<close> clears it and \<open>replaceImage\<close>
  of the class leaves it.
\<close>

theorem variants_differ_on_srcset:
  "src (elements (page_of (cageifyImage CAGE_URLS quarters sample_img sample_page)) 3) =
     Some (CAGE_URLS ! 0) \<and>
   src (elements (page_of (Cageify_replaceImage CAGE_URLS quarters sample_img sample_page)) 3) =
     Some (CAGE_URLS ! 0) \<and>
   srcset (elements (page_of (cageifyImage CAGE_URLS quarters sample_img sample_page)) 3) = [] \<and>
   srcset (elements (page_of (Cageify_replaceImage CAGE_URLS quarters sample_img sample_page)) 3) =
     ''photo-2x.png 2x''"
  using quarters_index [of 0]
  by (simp add: cageifyImage_def Cageify_replaceImage_def getRandomCageUrl_def
      Cageify_getRandomCageUrl_def Let_def assign_src_def assign_srcset_def sample_page_def
      sample_img_def array_get_def length_CAGE_URLS)

text \<open>
  Claim C9 says that, although both tests run, an added image element has
  \<open>replaceImage\<close> applied to it exactly once per delivery. As stated this fails: a
  delivery that reports a \<open>DIV\<close> and, in a record of its own, the first image
  inside it hands that image to \<open>replaceImage\<close> twice. Three draws are made for two
  images, and the image ends with what the third draw selects.
\<close>

theorem callback_replaces_twice:
  "callback_targets nested_batch =
     [Element 5 True None ''img'' [], Element 8 True None ''img'' [],
      Element 5 True None ''img'' []] \<and>
   count_list (map ident (callback_targets nested_batch)) 5 = 2 \<and>
   callback CAGE_URLS quarters nested_batch sample_page =
     for_each (Cageify_replaceImage CAGE_URLS quarters) (callback_targets nested_batch)
       sample_page \<and>
   random_calls (page_of (callback CAGE_URLS quarters nested_batch sample_page)) = 3 \<and>
   src (elements (page_of (callback CAGE_URLS quarters nested_batch sample_page)) 5) =
     Some (CAGE_URLS ! 2) \<and>
   src (elements (page_of (callback CAGE_URLS quarters nested_batch sample_page)) 8) =
     Some (CAGE_URLS ! 1)"
proof -
  have targets: "callback_targets nested_batch =
     [Element 5 True None ''img'' [], Element 8 True None ''img'' [],
      Element 5 True None ''img'' []]"
    using sample_div_images
    by (simp add: callback_targets_def nested_batch_def callback_node_targets_def
        querySelectorAll_img_def sample_div_def ELEMENT_NODE_def)
  have pick0: "array_get CAGE_URLS (Math_floor (times_length (quarters 0) 5)) =
      Some (CAGE_URLS ! 0)"
    using quarters_index [of 0] by (simp add: array_get_def length_CAGE_URLS)
  have pick1: "array_get CAGE_URLS (Math_floor (times_length (quarters (Suc 0)) 5)) =
      Some (CAGE_URLS ! 1)"
    using quarters_index [of 1] by (simp add: array_get_def length_CAGE_URLS)
  have pick2: "array_get CAGE_URLS (Math_floor (times_length (quarters (Suc (Suc 0))) 5)) =
      Some (CAGE_URLS ! 2)"
    using quarters_index [of 2] by (simp add: array_get_def length_CAGE_URLS numeral_2_eq_2)
  have run: "callback CAGE_URLS quarters nested_batch sample_page =
     for_each (Cageify_replaceImage CAGE_URLS quarters) (callback_targets nested_batch)
       sample_page"
    by (rule callback_as_targets)
  have effect:
    "random_calls (page_of (for_each (Cageify_replaceImage CAGE_URLS quarters)
        [Element 5 True None ''img'' [], Element 8 True None ''img'' [],
         Element 5 True None ''img'' []] sample_page)) = 3 \<and>
     src (elements (page_of (for_each (Cageify_replaceImage CAGE_URLS quarters)
        [Element 5 True None ''img'' [], Element 8 True None ''img'' [],
         Element 5 True None ''img'' []] sample_page)) 5) = Some (CAGE_URLS ! 2) \<and>
     src (elements (page_of (for_each (Cageify_replaceImage CAGE_URLS quarters)
        [Element 5 True None ''img'' [], Element 8 True None ''img'' [],
         Element 5 True None ''img'' []] sample_page)) 8) = Some (CAGE_URLS ! 1)"
    by (simp add: pick0 pick1 pick2 length_CAGE_URLS Cageify_replaceImage_def
        Cageify_getRandomCageUrl_def assign_src_def notify_def sample_page_def)
  show ?thesis
    using effect by (simp add: run targets)
qed

text \<open>
  Claim C9, as it holds. For an image element both \<open>if\<close> statements run:
  \<open>replaceImage\<close> is called on the node and then on what the selector matches below
  it, and the node is not among those. So each time the node is processed as an
  added node it is replaced exactly once: one draw is made for it and one for each
  match below it, and it ends with what the first of these draws selects. In a
  delivery that reports the image as an added node and in whose added subtrees the
  image occurs once, \<open>replaceImage\<close> is called on it exactly once: one draw is made
  for each call of the delivery, and the image ends with what the draw of its own
  call selects. (Where needed, no setter concerned throws.)
\<close>

theorem callback_image_once:
  assumes "nodeName n = ''IMG''" and "nodeType n = ELEMENT_NODE"
  shows
    "callback_node urls rnd n st =
       for_each (Cageify_replaceImage urls rnd) (n # querySelectorAll_img n) st \<and>
     (ident n \<notin> ident ` set (descendants n) \<longrightarrow>
        count_list (map ident (n # querySelectorAll_img n)) (ident n) = 1 \<and>
        ((\<forall>x\<in>set (n # querySelectorAll_img n). setter_throws (elements st (ident x)) = None) \<longrightarrow>
         (\<exists>st'. callback_node urls rnd n st = Normal st' \<and>
            random_calls st' = Suc (random_calls st) + length (querySelectorAll_img n) \<and>
            elements st' (ident n) =
              (elements st (ident n))\<lparr>src := fst (Cageify_getRandomCageUrl urls rnd st)\<rparr>))) \<and>
     (n \<in> set (concat (map addedNodes records)) \<longrightarrow>
      count_list (map ident (delivered_nodes records)) (ident n) = 1 \<longrightarrow>
        callback urls rnd records st =
          for_each (Cageify_replaceImage urls rnd) (callback_targets records) st \<and>
        count_list (map ident (callback_targets records)) (ident n) = 1 \<and>
        ((\<forall>x\<in>set (callback_targets records). setter_throws (elements st (ident x)) = None) \<longrightarrow>
         (\<exists>st' j. callback urls rnd records st = Normal st' \<and>
            j < length (callback_targets records) \<and>
            ident (callback_targets records ! j) = ident n \<and>
            random_calls st' = random_calls st + length (callback_targets records) \<and>
            elements st' (ident n) =
              (elements st (ident n))
                \<lparr>src := fst (Cageify_getRandomCageUrl urls rnd
                                (st\<lparr>random_calls := random_calls st + j\<rparr>))\<rparr>)))"
proof (intro conjI impI)
  show node: "callback_node urls rnd n st =
       for_each (Cageify_replaceImage urls rnd) (n # querySelectorAll_img n) st"
    using assms by (simp add: callback_node_as_targets callback_node_targets_def)
  {
    assume wf: "ident n \<notin> ident ` set (descendants n)"
    then have notin: "ident n \<notin> ident ` set (querySelectorAll_img n)"
      by (auto simp add: querySelectorAll_img_def)
    then have "count_list (map ident (querySelectorAll_img n)) (ident n) = 0"
      by (simp add: count_list_0_iff)
    then show "count_list (map ident (n # querySelectorAll_img n)) (ident n) = 1"
      by simp
    assume nf: "\<forall>x\<in>set (n # querySelectorAll_img n).
                  setter_throws (elements st (ident x)) = None"
    have "\<exists>st'. for_each (Cageify_replaceImage urls rnd) ([] @ n # querySelectorAll_img n) st =
             Normal st' \<and>
           random_calls st' = random_calls st + length ([] @ n # querySelectorAll_img n) \<and>
           elements st' (ident n) =
             (elements st (ident n))
               \<lparr>src := fst (Cageify_getRandomCageUrl urls rnd
                               (st\<lparr>random_calls := random_calls st + length ([] :: node list)\<rparr>))\<rparr>"
      using nf notin by (intro for_each_Cageify_replaceImage_at) simp_all
    moreover have "fst (Cageify_getRandomCageUrl urls rnd (st\<lparr>random_calls := random_calls st\<rparr>)) =
        fst (Cageify_getRandomCageUrl urls rnd st)"
      by (rule Cageify_getRandomCageUrl_fst_cong) simp
    ultimately show "\<exists>st'. callback_node urls rnd n st = Normal st' \<and>
            random_calls st' = Suc (random_calls st) + length (querySelectorAll_img n) \<and>
            elements st' (ident n) =
              (elements st (ident n))\<lparr>src := fst (Cageify_getRandomCageUrl urls rnd st)\<rparr>"
      by (simp add: node)
  }
  {
    assume added: "n \<in> set (concat (map addedNodes records))"
      and one: "count_list (map ident (delivered_nodes records)) (ident n) = 1"
    show run: "callback urls rnd records st =
          for_each (Cageify_replaceImage urls rnd) (callback_targets records) st"
      by (rule callback_as_targets)
    have "ident n \<in> set (map ident (callback_targets records))"
      using added_image_is_target [OF added assms(1)] by simp
    then have "0 < count_list (map ident (callback_targets records)) (ident n)"
      by (rule count_list_pos)
    moreover have "count_list (map ident (callback_targets records)) (ident n) \<le> 1"
      using callback_targets_count [of records "ident n"] one by simp
    ultimately show once: "count_list (map ident (callback_targets records)) (ident n) = 1"
      by simp
    assume nf: "\<forall>x\<in>set (callback_targets records).
                  setter_throws (elements st (ident x)) = None"
    from count_one_split [OF once]
    obtain ys x zs where split: "callback_targets records = ys @ x # zs"
      and x: "ident x = ident n"
      and ys: "ident n \<notin> ident ` set ys" and zs: "ident n \<notin> ident ` set zs"
      by blast
    have "\<exists>st'. for_each (Cageify_replaceImage urls rnd) (ys @ x # zs) st = Normal st' \<and>
           random_calls st' = random_calls st + length (ys @ x # zs) \<and>
           elements st' (ident x) =
             (elements st (ident x))
               \<lparr>src := fst (Cageify_getRandomCageUrl urls rnd
                               (st\<lparr>random_calls := random_calls st + length ys\<rparr>))\<rparr>"
      using nf ys zs x by (intro for_each_Cageify_replaceImage_at) (simp_all add: split)
    then obtain st' where
      "for_each (Cageify_replaceImage urls rnd) (callback_targets records) st = Normal st'"
      "random_calls st' = random_calls st + length (callback_targets records)"
      "elements st' (ident n) =
             (elements st (ident n))
               \<lparr>src := fst (Cageify_getRandomCageUrl urls rnd
                               (st\<lparr>random_calls := random_calls st + length ys\<rparr>))\<rparr>"
      using split x by auto
    moreover have "length ys < length (callback_targets records)"
      "ident (callback_targets records ! length ys) = ident n"
      using split x by simp_all
    ultimately show "\<exists>st' j. callback urls rnd records st = Normal st' \<and>
            j < length (callback_targets records) \<and>
            ident (callback_targets records ! j) = ident n \<and>
            random_calls st' = random_calls st + length (callback_targets records) \<and>
            elements st' (ident n) =
              (elements st (ident n))
                \<lparr>src := fst (Cageify_getRandomCageUrl urls rnd
                                (st\<lparr>random_calls := random_calls st + j\<rparr>))\<rparr>"
      using run by auto
  }
qed

text \<open>
  An instance: a delivery that reports the \<open>DIV\<close> of above and, in a second record,
  a new image. Three draws are made, and the new image gets what the third selects.
\<close>

theorem callback_image_once_witness:
  "nodeName sample_img = ''IMG'' \<and> nodeType sample_img = ELEMENT_NODE \<and>
   ident sample_img \<notin> ident ` set (descendants sample_img) \<and>
   sample_img \<in> set (concat (map addedNodes sample_batch)) \<and>
   count_list (map ident (delivered_nodes sample_batch)) (ident sample_img) = 1 \<and>
   (\<exists>st'. callback_node CAGE_URLS quarters sample_img sample_page = Normal st' \<and>
      random_calls st' = 1 \<and> src (elements st' 3) = Some (CAGE_URLS ! 0)) \<and>
   count_list (map ident (callback_targets sample_batch)) (ident sample_img) = 1 \<and>
   (\<exists>st'. callback CAGE_URLS quarters sample_batch sample_page = Normal st' \<and>
      random_calls st' = 3 \<and> src (elements st' 3) = Some (CAGE_URLS ! 2))"
proof -
  have a: "nodeName sample_img = ''IMG''" and b: "nodeType sample_img = ELEMENT_NODE"
    by (simp_all add: sample_img_def)
  have c: "ident sample_img \<notin> ident ` set (descendants sample_img)"
    by (simp add: sample_img_def)
  have d: "sample_img \<in> set (concat (map addedNodes sample_batch))"
    by (simp add: sample_batch_def)
  have e: "count_list (map ident (delivered_nodes sample_batch)) (ident sample_img) = 1"
    by (simp add: delivered_nodes_def sample_batch_def sample_div_def sample_img_def)
  have q: "querySelectorAll_img sample_img = []"
    by (simp add: querySelectorAll_img_def sample_img_def)
  have f: "\<forall>x\<in>set (sample_img # querySelectorAll_img sample_img).
             setter_throws (elements sample_page (ident x)) = None"
    by (simp add: sample_page_def)
  have g: "\<forall>x\<in>set (callback_targets sample_batch).
             setter_throws (elements sample_page (ident x)) = None"
    by (simp add: sample_page_def)
  have id3: "ident sample_img = 3" by (simp add: sample_img_def)
  have rc: "random_calls sample_page = 0" by (simp add: sample_page_def)
  have pick0: "fst (Cageify_getRandomCageUrl CAGE_URLS quarters sample_page) =
      Some (CAGE_URLS ! 0)"
    using quarters_pick [of sample_page] by (simp add: Cageify_getRandomCageUrl_eq rc)
  have pick2: "fst (Cageify_getRandomCageUrl CAGE_URLS quarters
                 (sample_page\<lparr>random_calls := Suc (Suc 0)\<rparr>)) = Some (CAGE_URLS ! 2)"
    using quarters_pick [of "sample_page\<lparr>random_calls := 2\<rparr>"]
    by (simp add: Cageify_getRandomCageUrl_eq numeral_2_eq_2)
  note inst = callback_image_once [OF a b, of CAGE_URLS quarters sample_page sample_batch]
  from inst c f obtain st1 where node:
    "callback_node CAGE_URLS quarters sample_img sample_page = Normal st1"
    "random_calls st1 = Suc (random_calls sample_page) + length (querySelectorAll_img sample_img)"
    "elements st1 (ident sample_img) =
       (elements sample_page (ident sample_img))
         \<lparr>src := fst (Cageify_getRandomCageUrl CAGE_URLS quarters sample_page)\<rparr>"
    by blast
  have n1: "\<exists>st'. callback_node CAGE_URLS quarters sample_img sample_page = Normal st' \<and>
      random_calls st' = 1 \<and> src (elements st' 3) = Some (CAGE_URLS ! 0)"
    using node pick0 by (simp add: q rc id3)
  from inst d e have once:
    "count_list (map ident (callback_targets sample_batch)) (ident sample_img) = 1"
    by blast
  from inst d e g obtain st2 j where batch:
    "callback CAGE_URLS quarters sample_batch sample_page = Normal st2"
    "j < length (callback_targets sample_batch)"
    "ident (callback_targets sample_batch ! j) = ident sample_img"
    "random_calls st2 = random_calls sample_page + length (callback_targets sample_batch)"
    "elements st2 (ident sample_img) =
       (elements sample_page (ident sample_img))
         \<lparr>src := fst (Cageify_getRandomCageUrl CAGE_URLS quarters
                         (sample_page\<lparr>random_calls := random_calls sample_page + j\<rparr>))\<rparr>"
    by blast
  have "j = 0 \<or> j = 1 \<or> j = 2"
    using batch(2) by (auto simp add: sample_batch_targets)
  then have j: "j = 2"
    using batch(3) by (auto simp add: sample_batch_targets sample_img_def)
  have n2: "\<exists>st'. callback CAGE_URLS quarters sample_batch sample_page = Normal st' \<and>
      random_calls st' = 3 \<and> src (elements st' 3) = Some (CAGE_URLS ! 2)"
    using batch(1,4,5) pick2 by (simp add: j rc id3 sample_batch_targets)
  from a b c d e n1 once n2 show ?thesis by (intro conjI)
qed

text \<open>
  Claim C10. With an empty list the computed index is 0 whatever \<open>Math.random()\<close>
  returns, the array read yields \<open>undefined\<close> (no member of the list) without
  throwing, and a replacement of an image whose setter does not throw completes
  normally with \<open>undefined\<close> assigned to the image's \<open>src\<close>, in both scripts.
\<close>

theorem empty_list_pick_undefined:
  assumes "setter_throws (elements st (ident img)) = None"
  shows "Math_floor (times_length r (length ([] :: string list))) = 0 \<and>
         fst (getRandomCageUrl [] rnd st) = None \<and>
         fst (Cageify_getRandomCageUrl [] rnd st) = None \<and>
         (\<exists>st'. cageifyImage [] rnd img st = Normal st' \<and>
                 src (elements st' (ident img)) = None) \<and>
         (\<exists>st'. Cageify_replaceImage [] rnd img st = Normal st' \<and>
                 src (elements st' (ident img)) = None)"
  using assms random_index_empty [of r] random_index_empty [of "rnd (random_calls st)"]
  by (simp add: getRandomCageUrl_def Cageify_getRandomCageUrl_def Let_def array_get_def
      cageifyImage_def Cageify_replaceImage_def assign_src_def assign_srcset_def)

theorem empty_list_pick_undefined_witness:
  "setter_throws (elements sample_page (ident sample_img)) = None \<and>
   src (elements sample_page (ident sample_img)) = Some ''photo.png'' \<and>
   (\<exists>st'. cageifyImage [] quarters sample_img sample_page = Normal st' \<and>
           src (elements st' (ident sample_img)) = None)"
proof -
  have a: "setter_throws (elements sample_page (ident sample_img)) = None"
    by (simp add: sample_page_def)
  have b: "src (elements sample_page (ident sample_img)) = Some ''photo.png''"
    by (simp add: sample_page_def)
  from a b empty_list_pick_undefined [OF a, of "quarters 1" quarters] show ?thesis by blast
qed

end
